theory Spec2Isabelle
  imports Main
begin

section \<open>Entity model (parser.py, lines 7-65)\<close>

text \<open>
  Python objects are held by reference: the same Fragment object is reachable from the
  list it was appended to, from \<open>current_fragment\<close> and from \<open>state_stack\<close>, and it is
  mutated in place through any of them. The model therefore keeps the objects in a store
  and the lists hold references. A reference is the index of the object in the store of its
  class; an object is created by appending it to that store, so the stores list the
  objects of a class in creation order, attached to a container or not.
\<close>

type_synonym ref = nat

record Message =
  m_id :: int
  exchanged_items :: "string list"
  m_type :: string

record State =
  s_id :: int
  state_info :: string
  s_type :: string

text \<open>Messages and states draw their ids from the same counter: one store of events.\<close>

datatype event = EMessage Message | EState State

text \<open>What a list of items holds: a reference to an event or to a fragment.\<close>

datatype item = EventRef ref | FragmentRef ref

record Group =
  g_id :: int
  g_name :: string
  guard :: "string option"
  items :: "item list"
  g_type :: string

record Fragment =
  f_id :: int
  f_name :: string
  groups :: "ref list"
  f_type :: string

definition Message_init :: "int \<Rightarrow> string list \<Rightarrow> Message" where
  "Message_init i xs = \<lparr>m_id = i, exchanged_items = xs, m_type = ''message''\<rparr>"

definition State_init :: "int \<Rightarrow> string \<Rightarrow> State" where
  "State_init i info = \<lparr>s_id = i, state_info = info, s_type = ''state''\<rparr>"

definition Group_init :: "int \<Rightarrow> string \<Rightarrow> string option \<Rightarrow> Group" where
  "Group_init i n g = \<lparr>g_id = i, g_name = n, guard = g, items = [], g_type = ''group''\<rparr>"

definition Fragment_init :: "int \<Rightarrow> string \<Rightarrow> Fragment" where
  "Fragment_init i n = \<lparr>f_id = i, f_name = n, groups = [], f_type = ''fragment''\<rparr>"

definition add_item :: "Group \<Rightarrow> item \<Rightarrow> Group" where
  "add_item g it = g\<lparr>items := items g @ [it]\<rparr>"

definition add_group :: "Fragment \<Rightarrow> ref \<Rightarrow> Fragment" where
  "add_group f g = f\<lparr>groups := groups f @ [g]\<rparr>"

definition event_id :: "event \<Rightarrow> int" where
  "event_id e = (case e of EMessage m \<Rightarrow> m_id m | EState st \<Rightarrow> s_id st)"

subsection \<open>Decimal text of an integer, as the f-strings of the names produce it\<close>

fun digits :: "nat \<Rightarrow> string" where
  "digits n =
     (if n < 10 then [char_of (48 + n)]
      else digits (n div 10) @ [char_of (48 + n mod 10)])"

declare digits.simps [simp del]

definition str_int :: "int \<Rightarrow> string" where
  "str_int i = (if i < 0 then CHR ''-'' # digits (nat (- i)) else digits (nat i))"

section \<open>ScenarioBuilder (parser.py, lines 78-176)\<close>

text \<open>
  The exceptions the builder raises are plain \<open>Exception\<close> objects told apart by their
  message. Reading \<open>.name\<close> of \<open>None\<close> raises \<open>AttributeError\<close>.
\<close>

datatype error = Exception string | AttributeError string

record ScenarioBuilder =
  base :: "item list"
  current_fragment :: "ref option"
  current_group :: "ref option"
  state_stack :: "(ref option \<times> ref option) list"
  event_counter :: int
  group_counter :: int
  fragment_counter :: int

text \<open>The builder together with the objects created so far.\<close>

record world = ScenarioBuilder +
  event_objs :: "event list"
  group_objs :: "Group list"
  fragment_objs :: "Fragment list"

definition ScenarioBuilder_init :: world where
  "ScenarioBuilder_init =
     \<lparr>base = [], current_fragment = None, current_group = None, state_stack = [],
      event_counter = 1, group_counter = 1, fragment_counter = 1,
      event_objs = [], group_objs = [], fragment_objs = []\<rparr>"

text \<open>
  The messages of the four \<open>raise\<close> statements. The specification calls the first two
  NoActiveGroup, the third NoActiveFragment and the fourth EmptyContextStack.
\<close>

definition NoActiveGroup_event :: error where
  "NoActiveGroup_event =
     Exception ''Error: In a fragment but no group is active. Call enter_group() first.''"

definition NoActiveGroup_fragment :: error where
  "NoActiveGroup_fragment =
     Exception ''Error: Cannot attach a new fragment because no active group exists.''"

definition NoActiveFragment :: error where
  "NoActiveFragment = Exception ''Error: Cannot enter a group when not inside a fragment.''"

definition EmptyContextStack :: error where
  "EmptyContextStack = Exception ''Error: No fragment to exit from.''"

definition is_NoActiveGroup :: "error \<Rightarrow> bool" where
  "is_NoActiveGroup e = (e = NoActiveGroup_event \<or> e = NoActiveGroup_fragment)"

text \<open>
  Each operation returns what the call returns or the exception it raises, together with
  the world as the call leaves it: a raise does not undo the assignments made before it.
  Printing is not part of the world; the attribute reads made while formatting the
  printed line are kept where they can raise.
\<close>

definition add_message :: "string list \<Rightarrow> world \<Rightarrow> (error + ref) \<times> world" where
  "add_message xs s =
     (let message = length (event_objs s);
          s1 = s\<lparr>event_objs := event_objs s @ [EMessage (Message_init (event_counter s) xs)]\<rparr>;
          s2 = s1\<lparr>event_counter := event_counter s1 + 1\<rparr>
      in case current_fragment s2 of
           None \<Rightarrow> (Inr message, s2\<lparr>base := base s2 @ [EventRef message]\<rparr>)
         | Some f \<Rightarrow>
             (case current_group s2 of
                None \<Rightarrow> (Inl NoActiveGroup_event, s2)
              | Some g \<Rightarrow>
                  (Inr message,
                   s2\<lparr>group_objs :=
                        (group_objs s2)[g := add_item (group_objs s2 ! g) (EventRef message)]\<rparr>)))"

definition add_state :: "string \<Rightarrow> world \<Rightarrow> (error + ref) \<times> world" where
  "add_state info s =
     (let state_event = length (event_objs s);
          s1 = s\<lparr>event_objs := event_objs s @ [EState (State_init (event_counter s) info)]\<rparr>;
          s2 = s1\<lparr>event_counter := event_counter s1 + 1\<rparr>
      in case current_fragment s2 of
           None \<Rightarrow> (Inr state_event, s2\<lparr>base := base s2 @ [EventRef state_event]\<rparr>)
         | Some f \<Rightarrow>
             (case current_group s2 of
                None \<Rightarrow> (Inl NoActiveGroup_event, s2)
              | Some g \<Rightarrow>
                  (Inr state_event,
                   s2\<lparr>group_objs :=
                        (group_objs s2)[g := add_item (group_objs s2 ! g) (EventRef state_event)]\<rparr>)))"

definition enter_fragment :: "world \<Rightarrow> (error + ref) \<times> world" where
  "enter_fragment s =
     (let frag = length (fragment_objs s);
          s1 = s\<lparr>fragment_objs := fragment_objs s @
                 [Fragment_init (fragment_counter s)
                    (''Fragment '' @ str_int (fragment_counter s))]\<rparr>;
          s2 = s1\<lparr>fragment_counter := fragment_counter s1 + 1\<rparr>;
          push = (\<lambda>s3. s3\<lparr>state_stack := state_stack s3 @
                                [(current_fragment s3, current_group s3)],
                            current_fragment := Some frag,
                            current_group := None\<rparr>)
      in case current_fragment s2 of
           None \<Rightarrow> (Inr frag, push (s2\<lparr>base := base s2 @ [FragmentRef frag]\<rparr>))
         | Some f \<Rightarrow>
             (case current_group s2 of
                None \<Rightarrow> (Inl NoActiveGroup_fragment, s2)
              | Some g \<Rightarrow>
                  (Inr frag,
                   push (s2\<lparr>group_objs :=
                        (group_objs s2)[g := add_item (group_objs s2 ! g) (FragmentRef frag)]\<rparr>))))"

definition enter_group :: "string option \<Rightarrow> world \<Rightarrow> (error + ref) \<times> world" where
  "enter_group gd s =
     (case current_fragment s of
        None \<Rightarrow> (Inl NoActiveFragment, s)
      | Some f \<Rightarrow>
          (let grp = length (group_objs s);
               s1 = s\<lparr>group_objs := group_objs s @
                      [Group_init (group_counter s) (''Group '' @ str_int (group_counter s)) gd]\<rparr>;
               s2 = s1\<lparr>group_counter := group_counter s1 + 1\<rparr>;
               s3 = s2\<lparr>fragment_objs :=
                        (fragment_objs s2)[f := add_group (fragment_objs s2 ! f) grp]\<rparr>
           in (Inr grp, s3\<lparr>current_group := Some grp\<rparr>)))"

definition exit_fragment :: "world \<Rightarrow> (error + unit) \<times> world" where
  "exit_fragment s =
     (if state_stack s = [] then (Inl EmptyContextStack, s)
      else
        (let (prev_fragment, prev_group) = last (state_stack s);
             s1 = s\<lparr>state_stack := butlast (state_stack s)\<rparr>
         in case current_fragment s1 of
              None \<Rightarrow> (Inl (AttributeError ''NoneType object has no attribute name''), s1)
            | Some f \<Rightarrow>
                (Inr (), s1\<lparr>current_fragment := prev_fragment, current_group := prev_group\<rparr>)))"

definition get_scenario :: "world \<Rightarrow> item list" where
  "get_scenario s = base s"

subsection \<open>The guard text of a branch header (print_scenario, lines 192-193)\<close>

definition guard_str :: "Group \<Rightarrow> string" where
  "guard_str grp =
     (case guard grp of None \<Rightarrow> [] | Some g \<Rightarrow> '' [Guard: '' @ g @ '']'')"

definition group_header :: "string \<Rightarrow> Group \<Rightarrow> string" where
  "group_header spacer grp =
     spacer @ ''  * '' @ g_name grp @ guard_str grp @ '' (Group):''"

section \<open>Sequences of calls\<close>

datatype op =
    AddMessage "string list"
  | AddState string
  | EnterFragment
  | EnterGroup "string option"
  | ExitFragment

text \<open>What a call returns: the object it created, or \<open>None\<close> for \<open>exit_fragment\<close>.\<close>

datatype retval = REvent ref | RFragment ref | RGroup ref | RNone

definition step :: "op \<Rightarrow> world \<Rightarrow> (error + retval) \<times> world" where
  "step c s =
     (case c of
        AddMessage xs \<Rightarrow> apfst (map_sum id REvent) (add_message xs s)
      | AddState info \<Rightarrow> apfst (map_sum id REvent) (add_state info s)
      | EnterFragment \<Rightarrow> apfst (map_sum id RFragment) (enter_fragment s)
      | EnterGroup gd \<Rightarrow> apfst (map_sum id RGroup) (enter_group gd s)
      | ExitFragment \<Rightarrow> apfst (map_sum id (\<lambda>_. RNone)) (exit_fragment s))"

fun exec :: "op list \<Rightarrow> world \<Rightarrow> (error + retval) list \<times> world" where
  "exec [] s = ([], s)"
| "exec (c # cs) s =
     (let (r, s1) = step c s; (rs, s2) = exec cs s1 in (r # rs, s2))"

definition run :: "op list \<Rightarrow> world \<Rightarrow> world" where
  "run cs s = snd (exec cs s)"

definition results :: "op list \<Rightarrow> world \<Rightarrow> (error + retval) list" where
  "results cs s = fst (exec cs s)"

text \<open>The calls of the driver (lines 209-230).\<close>

definition main_calls :: "op list" where
  "main_calls =
     [AddMessage [''data1'', ''data2''],
      AddMessage [''data3'', ''data4''],
      EnterFragment,
      EnterGroup (Some ''x > 5''),
      AddMessage [''data5''],
      AddState ''Processing'',
      EnterGroup (Some ''x <= 5''),
      AddMessage [''data6'', ''data7''],
      ExitFragment,
      AddMessage [''data8'']]"

section \<open>Invariants of the reachable worlds\<close>

definition ctx_shape :: "world \<Rightarrow> bool" where
  "ctx_shape s =
     (case state_stack s of
        [] \<Rightarrow> current_fragment s = None \<and> current_group s = None
      | c # cs \<Rightarrow> c = (None, None) \<and> (\<forall>d \<in> set cs. fst d \<noteq> None) \<and>
                  current_fragment s \<noteq> None)"

fun item_ok :: "nat \<Rightarrow> nat \<Rightarrow> item \<Rightarrow> bool" where
  "item_ok ne nf (EventRef e) = (e < ne)"
| "item_ok ne nf (FragmentRef f) = (f < nf)"

definition refs_ok :: "world \<Rightarrow> bool" where
  "refs_ok s =
     (let ok = item_ok (length (event_objs s)) (length (fragment_objs s)) in
      (\<forall>it \<in> set (base s). ok it) \<and>
      (\<forall>g < length (group_objs s). \<forall>it \<in> set (items (group_objs s ! g)). ok it) \<and>
      (\<forall>f < length (fragment_objs s).
         \<forall>g \<in> set (groups (fragment_objs s ! f)). g < length (group_objs s)))"

definition ctx_ok :: "Fragment list \<Rightarrow> nat \<Rightarrow> ref option \<times> ref option \<Rightarrow> bool" where
  "ctx_ok fs ng c =
     (case c of
        (None, g) \<Rightarrow> g = None
      | (Some f, g) \<Rightarrow>
          f < length fs \<and>
          (case g of None \<Rightarrow> True
                   | Some gi \<Rightarrow> gi < ng \<and> gi \<in> set (groups (fs ! f))))"

definition ctxs_ok :: "world \<Rightarrow> bool" where
  "ctxs_ok s =
     (\<forall>c \<in> set (state_stack s @ [(current_fragment s, current_group s)]).
        ctx_ok (fragment_objs s) (length (group_objs s)) c)"

definition ids_ok :: "world \<Rightarrow> bool" where
  "ids_ok s =
     (map event_id (event_objs s) = [1..int (length (event_objs s))] \<and>
      event_counter s = int (length (event_objs s)) + 1 \<and>
      map g_id (group_objs s) = [1..int (length (group_objs s))] \<and>
      group_counter s = int (length (group_objs s)) + 1 \<and>
      map f_id (fragment_objs s) = [1..int (length (fragment_objs s))] \<and>
      fragment_counter s = int (length (fragment_objs s)) + 1)"

definition world_inv :: "world \<Rightarrow> bool" where
  "world_inv s = (ctx_shape s \<and> ctxs_ok s \<and> refs_ok s \<and> ids_ok s)"

section \<open>Notions used to state the properties\<close>

text \<open>
  Properly nested fragments: the first fragment is entered at top level, every further
  one inside a group (with a guard from the list) of the fragment entered before it.
\<close>

definition nested_enters :: "string option list \<Rightarrow> op list" where
  "nested_enters gds = EnterFragment # concat (map (\<lambda>gd. [EnterGroup gd, EnterFragment]) gds)"

text \<open>The calls that construct an event, and the results that stand for a created group.\<close>

fun creates_event :: "op \<Rightarrow> bool" where
  "creates_event (AddMessage xs) = True"
| "creates_event (AddState info) = True"
| "creates_event c = False"

fun is_group_result :: "error + retval \<Rightarrow> bool" where
  "is_group_result (Inr (RGroup g)) = True"
| "is_group_result r = False"

text \<open>
  What a failing call must leave alone: the root list, the current context, the context
  stack, the groups, and the fragments and events that existed before the call.
\<close>

definition unchanged_model :: "world \<Rightarrow> world \<Rightarrow> bool" where
  "unchanged_model s s' =
     (base s' = base s \<and>
      current_fragment s' = current_fragment s \<and>
      current_group s' = current_group s \<and>
      state_stack s' = state_stack s \<and>
      group_objs s' = group_objs s \<and>
      take (length (fragment_objs s)) (fragment_objs s') = fragment_objs s \<and>
      take (length (event_objs s)) (event_objs s') = event_objs s)"

text \<open>
  Every reference held by a container of the second world points to an object that
  already existed in the first.
\<close>

definition nothing_new_attached :: "world \<Rightarrow> world \<Rightarrow> bool" where
  "nothing_new_attached s s' =
     ((\<forall>it \<in> set (base s'). item_ok (length (event_objs s)) (length (fragment_objs s)) it) \<and>
      (\<forall>g \<in> set (group_objs s'). \<forall>it \<in> set (items g).
         item_ok (length (event_objs s)) (length (fragment_objs s)) it) \<and>
      (\<forall>f \<in> set (fragment_objs s'). \<forall>g \<in> set (groups f). g < length (group_objs s)))"

text \<open>
  The fragments entered and not yet exited, most recent first, each with the group entered
  last in it. This follows the wording of the specification, not the code: it is computed
  from the calls and what they returned (a successful \<open>enter_fragment\<close> opens a fragment,
  a successful \<open>enter_group\<close> replaces the group of the innermost open fragment, a
  successful \<open>exit_fragment\<close> closes the innermost open fragment), and is compared with
  the builder's \<open>current_fragment\<close>, \<open>current_group\<close> and \<open>state_stack\<close>.
\<close>

fun track :: "op \<Rightarrow> error + retval \<Rightarrow> (ref \<times> ref option) list \<Rightarrow> (ref \<times> ref option) list" where
  "track EnterFragment (Inr (RFragment f)) opn = (f, None) # opn"
| "track (EnterGroup gd) (Inr (RGroup g)) ((f, g0) # opn) = (f, Some g) # opn"
| "track ExitFragment (Inr v) (c # opn) = opn"
| "track c r opn = opn"

fun open_contexts :: "op list \<Rightarrow> world \<Rightarrow> (ref \<times> ref option) list \<Rightarrow> (ref \<times> ref option) list" where
  "open_contexts [] s opn = opn"
| "open_contexts (c # cs) s opn =
     open_contexts cs (snd (step c s)) (track c (fst (step c s)) opn)"

definition tracks :: "world \<Rightarrow> (ref \<times> ref option) list \<Rightarrow> bool" where
  "tracks s opn =
     (state_stack s @ [(current_fragment s, current_group s)] =
      (None, None) # rev (map (\<lambda>(f, g). (Some f, g)) opn))"

text \<open>
  A fragment that has no group, is not the current one and is saved nowhere on the
  context stack: no later call can open it again.
\<close>

definition closed_empty :: "ref \<Rightarrow> world \<Rightarrow> bool" where
  "closed_empty f s =
     (f < length (fragment_objs s) \<and> groups (fragment_objs s ! f) = [] \<and>
      current_fragment s \<noteq> Some f \<and> (\<forall>c \<in> set (state_stack s). fst c \<noteq> Some f))"

text \<open>
  Containers only grow: \<open>base\<close> and the items of every existing group of the first world
  are prefixes of what they are in the second.
\<close>

definition grown_from :: "world \<Rightarrow> world \<Rightarrow> bool" where
  "grown_from s s' =
     ((\<exists>ys. base s' = base s @ ys) \<and>
      length (group_objs s) \<le> length (group_objs s') \<and>
      (\<forall>g < length (group_objs s).
         \<exists>ys. items (group_objs s' ! g) = items (group_objs s ! g) @ ys))"

section \<open>Auxiliary lemmas\<close>

lemmas op_defs = add_message_def add_state_def enter_fragment_def enter_group_def
  exit_fragment_def

lemma ctx_shape_init: "ctx_shape ScenarioBuilder_init"
  by (simp add: ctx_shape_def ScenarioBuilder_init_def)

lemma ctx_shape_top: "ctx_shape s \<Longrightarrow> (state_stack s = []) = (current_fragment s = None)"
  by (cases "state_stack s") (auto simp: ctx_shape_def)

lemma ctx_shape_top_group: "ctx_shape s \<Longrightarrow> current_fragment s = None \<Longrightarrow> current_group s = None"
  by (cases "state_stack s") (auto simp: ctx_shape_def)

lemma ctx_shape_exit:
  assumes "ctx_shape s"
  shows "ctx_shape (snd (exit_fragment s))"
proof (cases "state_stack s")
  case Nil
  then show ?thesis using assms by (simp add: exit_fragment_def)
next
  case (Cons c cs)
  show ?thesis
  proof (cases cs rule: rev_cases)
    case Nil
    then show ?thesis using assms Cons
      by (auto simp: exit_fragment_def ctx_shape_def split: option.splits)
  next
    case (snoc ys y)
    then show ?thesis using assms Cons
      by (cases y) (auto simp: exit_fragment_def ctx_shape_def split: option.splits)
  qed
qed

lemma ctx_shape_step: "ctx_shape s \<Longrightarrow> ctx_shape (snd (step c s))"
proof (cases c)
  case ExitFragment
  assume "ctx_shape s"
  then show ?thesis using ExitFragment ctx_shape_exit[of s] by (simp add: step_def)
qed (cases "state_stack s"; auto simp: step_def op_defs ctx_shape_def Let_def split: option.splits)+

lemma nth_update: "xs[i := x] ! j = (if i = j \<and> i < length xs then x else xs ! j)"
  by (cases "i < length xs") (auto simp: nth_list_update list_update_beyond)

lemma item_ok_Suc1: "item_ok ne nf it \<Longrightarrow> item_ok (Suc ne) nf it"
  by (cases it) auto

lemma item_ok_Suc2: "item_ok ne nf it \<Longrightarrow> item_ok ne (Suc nf) it"
  by (cases it) auto

lemma refs_ok_init: "refs_ok ScenarioBuilder_init"
  by (simp add: refs_ok_def ScenarioBuilder_init_def)

lemma refs_ok_add_message: "refs_ok s \<Longrightarrow> refs_ok (snd (add_message xs s))"
  unfolding refs_ok_def add_message_def Let_def
  by (auto simp: add_item_def nth_update split: option.splits intro: item_ok_Suc1)

lemma refs_ok_add_state: "refs_ok s \<Longrightarrow> refs_ok (snd (add_state xs s))"
  unfolding refs_ok_def add_state_def Let_def
  by (auto simp: add_item_def nth_update split: option.splits intro: item_ok_Suc1)

lemma refs_ok_enter_fragment: "refs_ok s \<Longrightarrow> refs_ok (snd (enter_fragment s))"
  unfolding refs_ok_def enter_fragment_def Let_def
  by (auto simp: add_item_def nth_update nth_append Fragment_init_def less_Suc_eq
           split: option.splits intro: item_ok_Suc2)

lemma refs_ok_enter_group: "refs_ok s \<Longrightarrow> refs_ok (snd (enter_group gd s))"
  unfolding refs_ok_def enter_group_def Let_def
  by (auto simp: add_group_def nth_update nth_append Group_init_def less_Suc_eq
           split: option.splits)

lemma refs_ok_exit_fragment: "refs_ok s \<Longrightarrow> refs_ok (snd (exit_fragment s))"
  unfolding refs_ok_def exit_fragment_def Let_def
  by (auto split: option.splits prod.splits)

lemma refs_ok_step: "refs_ok s \<Longrightarrow> refs_ok (snd (step c s))"
  by (cases c)
     (simp_all add: step_def refs_ok_add_message refs_ok_add_state refs_ok_enter_fragment
        refs_ok_enter_group refs_ok_exit_fragment)

lemma ctx_ok_new_fragment: "ctx_ok fs ng c \<Longrightarrow> ctx_ok (fs @ [f]) ng c"
  by (auto simp: ctx_ok_def nth_append split: option.splits)

lemma ctx_ok_new_group:
  "ctx_ok fs ng c \<Longrightarrow> ctx_ok (fs[f := add_group (fs ! f) g]) (Suc ng) c"
  by (auto simp: ctx_ok_def nth_update add_group_def split: option.splits)

lemma ctxs_ok_init: "ctxs_ok ScenarioBuilder_init"
  by (simp add: ctxs_ok_def ctx_ok_def ScenarioBuilder_init_def)

lemma ctxs_ok_add_message: "ctxs_ok s \<Longrightarrow> ctxs_ok (snd (add_message xs s))"
  unfolding ctxs_ok_def add_message_def Let_def
  by (auto split: option.splits)

lemma ctxs_ok_add_state: "ctxs_ok s \<Longrightarrow> ctxs_ok (snd (add_state xs s))"
  unfolding ctxs_ok_def add_state_def Let_def
  by (auto split: option.splits)

lemma ctxs_ok_enter_fragment: "ctxs_ok s \<Longrightarrow> ctxs_ok (snd (enter_fragment s))"
  unfolding ctxs_ok_def enter_fragment_def Let_def
  by (auto split: option.splits intro: ctx_ok_new_fragment simp: ctx_ok_def[of _ _ "(Some _, None)"])

lemma ctx_ok_entered:
  "ctx_ok fs ng (Some f, g0) \<Longrightarrow> ctx_ok (fs[f := add_group (fs ! f) g]) (Suc g) (Some f, Some g)"
  by (auto simp: ctx_ok_def nth_update add_group_def)

lemma ctxs_ok_enter_group: "ctxs_ok s \<Longrightarrow> ctxs_ok (snd (enter_group gd s))"
  unfolding ctxs_ok_def enter_group_def Let_def
  by (auto split: option.splits intro: ctx_ok_new_group ctx_ok_entered)

lemma ctxs_ok_exit_fragment: "ctxs_ok s \<Longrightarrow> ctxs_ok (snd (exit_fragment s))"
proof (cases "state_stack s" rule: rev_cases)
  case Nil
  assume "ctxs_ok s"
  then show ?thesis using Nil by (simp add: exit_fragment_def)
next
  case (snoc ys y)
  assume "ctxs_ok s"
  then show ?thesis using snoc
    by (cases y) (auto simp: ctxs_ok_def exit_fragment_def Let_def split: option.splits)
qed

lemma ctxs_ok_step: "ctxs_ok s \<Longrightarrow> ctxs_ok (snd (step c s))"
  by (cases c)
     (simp_all add: step_def ctxs_ok_add_message ctxs_ok_add_state ctxs_ok_enter_fragment
        ctxs_ok_enter_group ctxs_ok_exit_fragment)

lemma upto_snoc: "[1..1 + int n] = [1..int n] @ [int n + 1]"
  by (simp add: upto_rec2 add.commute)

lemma map_update_same: "f y = f (xs ! i) \<Longrightarrow> map f (xs[i := y]) = map f xs"
  by (cases "i < length xs") (simp_all add: map_update list_update_same_conv list_update_beyond)

lemma ids_ok_init: "ids_ok ScenarioBuilder_init"
  by (simp add: ids_ok_def ScenarioBuilder_init_def)

lemma ids_ok_add_message: "ids_ok s \<Longrightarrow> ids_ok (snd (add_message xs s))"
  unfolding ids_ok_def add_message_def Let_def
  by (auto split: option.splits
        simp: upto_snoc map_update_same add_item_def event_id_def Message_init_def)

lemma ids_ok_add_state: "ids_ok s \<Longrightarrow> ids_ok (snd (add_state xs s))"
  unfolding ids_ok_def add_state_def Let_def
  by (auto split: option.splits
        simp: upto_snoc map_update_same add_item_def event_id_def State_init_def)

lemma ids_ok_enter_fragment: "ids_ok s \<Longrightarrow> ids_ok (snd (enter_fragment s))"
  unfolding ids_ok_def enter_fragment_def Let_def
  by (auto split: option.splits
        simp: upto_snoc map_update_same add_item_def Fragment_init_def)

lemma ids_ok_enter_group: "ids_ok s \<Longrightarrow> ids_ok (snd (enter_group gd s))"
  unfolding ids_ok_def enter_group_def Let_def
  by (auto split: option.splits
        simp: upto_snoc map_update_same add_group_def Group_init_def)

lemma ids_ok_exit_fragment: "ids_ok s \<Longrightarrow> ids_ok (snd (exit_fragment s))"
  unfolding ids_ok_def exit_fragment_def Let_def
  by (auto split: option.splits prod.splits)

lemma ids_ok_step: "ids_ok s \<Longrightarrow> ids_ok (snd (step c s))"
  by (cases c)
     (simp_all add: step_def ids_ok_add_message ids_ok_add_state ids_ok_enter_fragment
        ids_ok_enter_group ids_ok_exit_fragment)

lemma inv_init: "world_inv ScenarioBuilder_init"
  by (simp add: world_inv_def ctx_shape_init ctxs_ok_init refs_ok_init ids_ok_init)

lemma inv_step: "world_inv s \<Longrightarrow> world_inv (snd (step c s))"
  by (simp add: world_inv_def ctx_shape_step ctxs_ok_step refs_ok_step ids_ok_step)

lemma run_Nil: "run [] s = s"
  by (simp add: run_def)

lemma run_Cons: "run (c # cs) s = run cs (snd (step c s))"
  by (simp add: run_def split: prod.splits)

lemma run_append: "run (cs @ ds) s = run ds (run cs s)"
  by (induction cs arbitrary: s) (simp_all add: run_Nil run_Cons)

lemma inv_run: "world_inv s \<Longrightarrow> world_inv (run cs s)"
  by (induction cs arbitrary: s) (simp_all add: run_Nil run_Cons inv_step)

lemma inv_reachable: "world_inv (run cs ScenarioBuilder_init)"
  by (rule inv_run [OF inv_init])

lemma inv_current_group:
  assumes "world_inv s" "current_group s = Some g"
  shows "g < length (group_objs s) \<and>
         (\<exists>f. current_fragment s = Some f \<and> f < length (fragment_objs s) \<and>
              g \<in> set (groups (fragment_objs s ! f)))"
proof -
  have "ctx_ok (fragment_objs s) (length (group_objs s)) (current_fragment s, Some g)"
    using assms by (simp add: world_inv_def ctxs_ok_def)
  then show ?thesis by (cases "current_fragment s") (auto simp: ctx_ok_def)
qed

lemma inv_current_fragment:
  assumes "world_inv s" "current_fragment s = Some f"
  shows "f < length (fragment_objs s) \<and> state_stack s \<noteq> []"
proof -
  have "ctx_ok (fragment_objs s) (length (group_objs s)) (Some f, current_group s)"
    using assms by (simp add: world_inv_def ctxs_ok_def)
  moreover have "ctx_shape s" using assms by (simp add: world_inv_def)
  ultimately show ?thesis using assms(2) ctx_shape_top[of s] by (auto simp: ctx_ok_def)
qed

lemma inv_top_level:
  "world_inv s \<Longrightarrow> current_fragment s = None \<Longrightarrow> current_group s = None \<and> state_stack s = []"
  using ctx_shape_top[of s] ctx_shape_top_group[of s] by (simp add: world_inv_def)

lemma add_message_effect:
  assumes "world_inv s"
  shows "let m = length (event_objs s); r = fst (add_message xs s); s' = snd (add_message xs s) in
     event_objs s' = event_objs s @ [EMessage \<lparr>m_id = event_counter s, exchanged_items = xs, m_type = ''message''\<rparr>] \<and>
     ((\<exists>e. r = Inl e) \<longleftrightarrow> current_fragment s \<noteq> None \<and> current_group s = None) \<and>
     (\<forall>e. r = Inl e \<longrightarrow> is_NoActiveGroup e) \<and>
     (\<forall>v. r = Inr v \<longrightarrow> v = m) \<and>
     (current_fragment s = None \<longrightarrow>
        r = Inr m \<and> base s' = base s @ [EventRef m] \<and> group_objs s' = group_objs s) \<and>
     (\<forall>g. current_fragment s \<noteq> None \<and> current_group s = Some g \<longrightarrow>
        r = Inr m \<and> base s' = base s \<and> g < length (group_objs s) \<and>
        group_objs s' = (group_objs s)[g := (group_objs s ! g)\<lparr>items := items (group_objs s ! g) @ [EventRef m]\<rparr>])"
  using inv_current_group[OF assms]
  by (auto simp: add_message_def Let_def Message_init_def add_item_def is_NoActiveGroup_def split: option.splits)


lemma add_state_effect:
  assumes "world_inv s"
  shows "let m = length (event_objs s); r = fst (add_state info s); s' = snd (add_state info s) in
     event_objs s' = event_objs s @ [EState \<lparr>s_id = event_counter s, state_info = info, s_type = ''state''\<rparr>] \<and>
     ((\<exists>e. r = Inl e) \<longleftrightarrow> current_fragment s \<noteq> None \<and> current_group s = None) \<and>
     (\<forall>e. r = Inl e \<longrightarrow> is_NoActiveGroup e) \<and>
     (\<forall>v. r = Inr v \<longrightarrow> v = m) \<and>
     (current_fragment s = None \<longrightarrow>
        r = Inr m \<and> base s' = base s @ [EventRef m] \<and> group_objs s' = group_objs s) \<and>
     (\<forall>g. current_fragment s \<noteq> None \<and> current_group s = Some g \<longrightarrow>
        r = Inr m \<and> base s' = base s \<and> g < length (group_objs s) \<and>
        group_objs s' = (group_objs s)[g := (group_objs s ! g)\<lparr>items := items (group_objs s ! g) @ [EventRef m]\<rparr>])"
  using inv_current_group[OF assms]
  by (auto simp: add_state_def Let_def State_init_def add_item_def is_NoActiveGroup_def split: option.splits)

lemma enter_fragment_effect:
  assumes "world_inv s"
  shows "let m = length (fragment_objs s); r = fst (enter_fragment s); s' = snd (enter_fragment s) in
     fragment_objs s' = fragment_objs s @
       [\<lparr>f_id = fragment_counter s, f_name = ''Fragment '' @ str_int (fragment_counter s),
         groups = [], f_type = ''fragment''\<rparr>] \<and>
     ((\<exists>e. r = Inl e) \<longleftrightarrow> current_fragment s \<noteq> None \<and> current_group s = None) \<and>
     (\<forall>e. r = Inl e \<longrightarrow> is_NoActiveGroup e) \<and>
     (\<forall>v. r = Inr v \<longrightarrow> v = m) \<and>
     (current_fragment s = None \<longrightarrow>
        r = Inr m \<and> base s' = base s @ [FragmentRef m] \<and> group_objs s' = group_objs s) \<and>
     (\<forall>g. current_fragment s \<noteq> None \<and> current_group s = Some g \<longrightarrow>
        r = Inr m \<and> base s' = base s \<and> g < length (group_objs s) \<and>
        group_objs s' = (group_objs s)[g := (group_objs s ! g)\<lparr>items := items (group_objs s ! g) @ [FragmentRef m]\<rparr>])"
  using inv_current_group[OF assms]
  by (auto simp: enter_fragment_def Let_def Fragment_init_def add_item_def is_NoActiveGroup_def split: option.splits)

lemma enter_fragment_ctx:
  "fst (enter_fragment s) = Inr f \<Longrightarrow>
   f = length (fragment_objs s) \<and>
   state_stack (snd (enter_fragment s)) = state_stack s @ [(current_fragment s, current_group s)] \<and>
   current_fragment (snd (enter_fragment s)) = Some f \<and>
   current_group (snd (enter_fragment s)) = None"
  by (cases "current_fragment s"; cases "current_group s")
     (simp_all add: enter_fragment_def Let_def)

lemma enter_group_ctx:
  "current_fragment s = Some f \<Longrightarrow>
   fst (enter_group gd s) = Inr (length (group_objs s)) \<and>
   state_stack (snd (enter_group gd s)) = state_stack s \<and>
   current_fragment (snd (enter_group gd s)) = Some f \<and>
   current_group (snd (enter_group gd s)) = Some (length (group_objs s))"
  by (simp add: enter_group_def Let_def)

lemma exit_fragment_ctx:
  "state_stack s = ys @ [(pf, pg)] \<Longrightarrow> current_fragment s = Some f \<Longrightarrow>
   fst (exit_fragment s) = Inr () \<and>
   state_stack (snd (exit_fragment s)) = ys \<and>
   current_fragment (snd (exit_fragment s)) = pf \<and>
   current_group (snd (exit_fragment s)) = pg"
  by (simp add: exit_fragment_def Let_def)

lemma exec_append:
  "exec (cs @ ds) s = (fst (exec cs s) @ fst (exec ds (snd (exec cs s))), snd (exec ds (snd (exec cs s))))"
  by (induction cs arbitrary: s) (simp_all add: split_beta Let_def)

lemma results_append: "results (cs @ ds) s = results cs s @ results ds (run cs s)"
  by (simp add: results_def run_def exec_append)

lemma results_Nil: "results [] s = []"
  by (simp add: results_def)

lemma results_Cons: "results (c # cs) s = fst (step c s) # results cs (snd (step c s))"
  by (simp add: results_def split_beta Let_def)

lemma exits_unwind:
  "ctx_shape s \<Longrightarrow> length (state_stack s) = n \<Longrightarrow>
   results (replicate n ExitFragment) s = replicate n (Inr RNone) \<and>
   state_stack (run (replicate n ExitFragment) s) = [] \<and>
   current_fragment (run (replicate n ExitFragment) s) = None \<and>
   current_group (run (replicate n ExitFragment) s) = None"
proof (induction n arbitrary: s)
  case 0
  then show ?case
    using ctx_shape_top[of s] ctx_shape_top_group[of s] by (simp add: results_Nil run_Nil)
next
  case (Suc n)
  from Suc.prems obtain ys y where st: "state_stack s = ys @ [y]" "length ys = n"
    by (metis length_Suc_conv_rev)
  obtain pf pg where y: "y = (pf, pg)" by (cases y)
  from Suc.prems(1) st obtain f where cf: "current_fragment s = Some f"
    using ctx_shape_top[of s] by auto
  note e = exit_fragment_ctx[OF st(1)[unfolded y] cf]
  have sh: "ctx_shape (snd (step ExitFragment s))" by (rule ctx_shape_step[OF Suc.prems(1)])
  have s1: "snd (step ExitFragment s) = snd (exit_fragment s)" by (simp add: step_def)
  have r1: "fst (step ExitFragment s) = Inr RNone" using e by (simp add: step_def)
  have len: "length (state_stack (snd (step ExitFragment s))) = n" using e st s1 by simp
  from Suc.IH[OF sh len] r1 show ?case
    by (simp add: results_Cons run_Cons)
qed

lemma enter_fragment_succeeds:
  "current_fragment s = None \<or> current_group s \<noteq> None \<Longrightarrow>
   fst (enter_fragment s) = Inr (length (fragment_objs s))"
  by (cases "current_fragment s"; cases "current_group s")
     (simp_all add: enter_fragment_def Let_def)

lemma enter_fragment_fails:
  "current_fragment s = Some f \<Longrightarrow> current_group s = None \<Longrightarrow>
   fst (enter_fragment s) = Inl NoActiveGroup_fragment \<and>
   state_stack (snd (enter_fragment s)) = state_stack s \<and>
   current_fragment (snd (enter_fragment s)) = Some f \<and>
   current_group (snd (enter_fragment s)) = None \<and>
   fragment_counter (snd (enter_fragment s)) = fragment_counter s + 1"
  by (simp add: enter_fragment_def Let_def)

lemma nested_enters_snoc:
  "nested_enters (gds @ [gd]) = nested_enters gds @ [EnterGroup gd, EnterFragment]"
  by (simp add: nested_enters_def)

lemma group_then_fragment:
  assumes "current_fragment s = Some f"
  shows "(\<exists>g f'. results [EnterGroup gd, EnterFragment] s = [Inr (RGroup g), Inr (RFragment f')]) \<and>
         length (state_stack (run [EnterGroup gd, EnterFragment] s)) = Suc (length (state_stack s)) \<and>
         current_fragment (run [EnterGroup gd, EnterFragment] s) \<noteq> None \<and>
         current_group (run [EnterGroup gd, EnterFragment] s) = None"
proof -
  let ?s1 = "snd (enter_group gd s)"
  note e1 = enter_group_ctx[OF assms, of gd]
  have ok: "fst (enter_fragment ?s1) = Inr (length (fragment_objs ?s1))"
    using e1 by (intro enter_fragment_succeeds) simp
  note e2 = enter_fragment_ctx[OF ok]
  show ?thesis using e1 e2 ok
    by (simp add: results_Cons results_Nil run_Cons run_Nil step_def)
qed

lemma nested_enters_ok:
  "(\<forall>r \<in> set (results (nested_enters gds) ScenarioBuilder_init). \<exists>v. r = Inr v) \<and>
   length (state_stack (run (nested_enters gds) ScenarioBuilder_init)) = Suc (length gds) \<and>
   current_fragment (run (nested_enters gds) ScenarioBuilder_init) \<noteq> None \<and>
   current_group (run (nested_enters gds) ScenarioBuilder_init) = None"
proof (induction gds rule: rev_induct)
  case Nil
  have ok: "fst (enter_fragment ScenarioBuilder_init) = Inr (length (fragment_objs ScenarioBuilder_init))"
    by (intro enter_fragment_succeeds) (simp add: ScenarioBuilder_init_def)
  note e = enter_fragment_ctx[OF ok]
  show ?case using e ok
    by (simp add: nested_enters_def results_Cons results_Nil run_Cons run_Nil step_def
          ScenarioBuilder_init_def)
next
  case (snoc gd gds)
  let ?s = "run (nested_enters gds) ScenarioBuilder_init"
  from snoc obtain f where cf: "current_fragment ?s = Some f" by auto
  note g = group_then_fragment[OF cf, of gd]
  show ?case using snoc g
    by (auto simp: nested_enters_snoc results_append run_append)
qed

lemma repeated_enter_fails:
  "current_fragment s = Some f \<Longrightarrow> current_group s = None \<Longrightarrow>
   results (replicate k EnterFragment) s = replicate k (Inl NoActiveGroup_fragment) \<and>
   state_stack (run (replicate k EnterFragment) s) = state_stack s \<and>
   current_fragment (run (replicate k EnterFragment) s) = Some f \<and>
   current_group (run (replicate k EnterFragment) s) = None"
proof (induction k arbitrary: s)
  case 0
  then show ?case by (simp add: results_Nil run_Nil)
next
  case (Suc k)
  note e = enter_fragment_fails[OF Suc.prems]
  have a: "current_fragment (snd (step EnterFragment s)) = Some f"
    and b: "current_group (snd (step EnterFragment s)) = None"
    using e by (simp_all add: step_def)
  from Suc.IH[OF a b] e show ?case
    by (simp add: results_Cons run_Cons step_def)
qed

lemma exit_fragment_empty:
  "state_stack s = [] \<Longrightarrow> exit_fragment s = (Inl EmptyContextStack, s)"
  by (simp add: exit_fragment_def)

lemma repeated_exit_fails:
  "state_stack s = [] \<Longrightarrow>
   results (replicate k ExitFragment) s = replicate k (Inl EmptyContextStack) \<and>
   run (replicate k ExitFragment) s = s"
  by (induction k) (simp_all add: results_Cons results_Nil run_Cons run_Nil step_def
        exit_fragment_empty)

lemma count_nested_enters:
  "length (filter (\<lambda>c. c = EnterFragment) (nested_enters gds)) = Suc (length gds)"
  by (induction gds rule: rev_induct) (simp_all add: nested_enters_snoc, simp add: nested_enters_def)

lemma nested_then_exits:
  "let cs = nested_enters gds @ replicate (Suc (length gds)) ExitFragment;
       s = run cs ScenarioBuilder_init in
     (\<forall>r \<in> set (results cs ScenarioBuilder_init). \<exists>v. r = Inr v) \<and>
     current_fragment s = None \<and> current_group s = None \<and> state_stack s = [] \<and>
     fst (exit_fragment s) = Inl EmptyContextStack"
proof -
  let ?s = "run (nested_enters gds) ScenarioBuilder_init"
  note a = nested_enters_ok[of gds]
  have sh: "ctx_shape ?s" using inv_reachable[of "nested_enters gds"] by (simp add: world_inv_def)
  have len: "length (state_stack ?s) = Suc (length gds)" using a by simp
  note u = exits_unwind[OF sh len]
  show ?thesis using a u
    by (auto simp: Let_def results_append run_append exit_fragment_empty)
qed

lemma repeated_then_exits:
  "let cs = replicate (Suc n) EnterFragment @ replicate (Suc n) ExitFragment;
       s = run cs ScenarioBuilder_init in
     results cs ScenarioBuilder_init =
       Inr (RFragment 0) # replicate n (Inl NoActiveGroup_fragment) @
       Inr RNone # replicate n (Inl EmptyContextStack) \<and>
     current_fragment s = None \<and> current_group s = None \<and> state_stack s = [] \<and>
     fst (exit_fragment s) = Inl EmptyContextStack"
proof -
  let ?s1 = "snd (enter_fragment ScenarioBuilder_init)"
  have ok: "fst (enter_fragment ScenarioBuilder_init) = Inr 0"
    using enter_fragment_succeeds[of ScenarioBuilder_init] by (simp add: ScenarioBuilder_init_def)
  note e = enter_fragment_ctx[OF ok]
  have cf: "current_fragment ?s1 = Some 0" and cg: "current_group ?s1 = None"
    and st: "state_stack ?s1 = [] @ [(None, None)]"
    using e by (simp_all add: ScenarioBuilder_init_def)
  note r = repeated_enter_fails[OF cf cg, of n]
  let ?s2 = "run (replicate n EnterFragment) ?s1"
  have st2: "state_stack ?s2 = [] @ [(None, None)]" and cf2: "current_fragment ?s2 = Some 0"
    using r st by simp_all
  note x = exit_fragment_ctx[OF st2 cf2]
  let ?s3 = "snd (exit_fragment ?s2)"
  have st3: "state_stack ?s3 = []" using x by simp
  note y = repeated_exit_fails[OF st3, of n]
  have run_eq: "run (replicate (Suc n) EnterFragment @ replicate (Suc n) ExitFragment)
                  ScenarioBuilder_init = ?s3"
    using y by (simp add: run_append run_Cons step_def)
  have res_eq: "results (replicate (Suc n) EnterFragment @ replicate (Suc n) ExitFragment)
                  ScenarioBuilder_init =
                Inr (RFragment 0) # replicate n (Inl NoActiveGroup_fragment) @
                Inr RNone # replicate n (Inl EmptyContextStack)"
    using ok r x y by (simp add: results_append results_Cons run_Cons step_def)
  show ?thesis unfolding Let_def run_eq res_eq using x st3 by (simp add: exit_fragment_empty)
qed

lemma step_event_count:
  "length (event_objs (snd (step c s))) = length (event_objs s) + (if creates_event c then 1 else 0)"
  by (cases c) (auto simp: step_def op_defs Let_def split: option.splits prod.splits)

lemma step_fragment_count:
  "length (fragment_objs (snd (step c s))) =
   length (fragment_objs s) + (if c = EnterFragment then 1 else 0)"
  by (cases c) (auto simp: step_def op_defs Let_def split: option.splits prod.splits)

lemma step_group_count:
  "length (group_objs (snd (step c s))) =
   length (group_objs s) + (if is_group_result (fst (step c s)) then 1 else 0)"
  by (cases c) (auto simp: step_def op_defs Let_def split: option.splits prod.splits)

lemma run_event_count:
  "length (event_objs (run cs s)) = length (event_objs s) + length (filter creates_event cs)"
  by (induction cs arbitrary: s) (simp_all add: run_Nil run_Cons step_event_count)

lemma run_fragment_count:
  "length (fragment_objs (run cs s)) =
   length (fragment_objs s) + length (filter (\<lambda>c. c = EnterFragment) cs)"
  by (induction cs arbitrary: s) (simp_all add: run_Nil run_Cons step_fragment_count)

lemma run_group_count:
  "length (group_objs (run cs s)) =
   length (group_objs s) + length (filter is_group_result (results cs s))"
  by (induction cs arbitrary: s)
     (simp_all add: run_Nil run_Cons results_Nil results_Cons step_group_count)

lemma take_upto: "n \<le> m \<Longrightarrow> take n [1..int m] = [1..int n]"
proof (induction m)
  case 0
  then show ?case by simp
next
  case (Suc m)
  show ?case
  proof (cases "n = Suc m")
    case True
    then show ?thesis by simp
  next
    case False
    then have le: "n \<le> m" using Suc.prems by simp
    have "[1..int (Suc m)] = [1..int m] @ [int m + 1]"
      using upto_snoc[of m] by (simp add: add.commute)
    then show ?thesis using Suc.IH[OF le] le by simp
  qed
qed

lemma ids_ok_later:
  "ids_ok s \<Longrightarrow> ids_ok t \<Longrightarrow>
   length (event_objs s) \<le> length (event_objs t) \<Longrightarrow>
   length (group_objs s) \<le> length (group_objs t) \<Longrightarrow>
   length (fragment_objs s) \<le> length (fragment_objs t) \<Longrightarrow>
   take (length (event_objs s)) (map event_id (event_objs t)) = map event_id (event_objs s) \<and>
   take (length (group_objs s)) (map g_id (group_objs t)) = map g_id (group_objs s) \<and>
   take (length (fragment_objs s)) (map f_id (fragment_objs t)) = map f_id (fragment_objs s)"
  by (simp add: ids_ok_def take_upto)

lemma failing_add_message:
  "fst (add_message xs s) = Inl e \<Longrightarrow> unchanged_model s (snd (add_message xs s))"
  by (cases "current_fragment s"; cases "current_group s")
     (simp_all add: add_message_def Let_def unchanged_model_def)

lemma failing_add_state:
  "fst (add_state info s) = Inl e \<Longrightarrow> unchanged_model s (snd (add_state info s))"
  by (cases "current_fragment s"; cases "current_group s")
     (simp_all add: add_state_def Let_def unchanged_model_def)

lemma failing_enter_fragment:
  "fst (enter_fragment s) = Inl e \<Longrightarrow>
   unchanged_model s (snd (enter_fragment s)) \<and>
   fragment_objs (snd (enter_fragment s)) = fragment_objs s @
     [Fragment_init (fragment_counter s) (''Fragment '' @ str_int (fragment_counter s))]"
  by (cases "current_fragment s"; cases "current_group s")
     (simp_all add: enter_fragment_def Let_def unchanged_model_def)

lemma failing_enter_group:
  "fst (enter_group gd s) = Inl e \<Longrightarrow> snd (enter_group gd s) = s"
  by (cases "current_fragment s") (simp_all add: enter_group_def Let_def)

lemma failing_exit_fragment:
  assumes "ctx_shape s" "fst (exit_fragment s) = Inl e"
  shows "snd (exit_fragment s) = s"
proof (cases "state_stack s" rule: rev_cases)
  case Nil
  then show ?thesis by (simp add: exit_fragment_def)
next
  case (snoc ys y)
  obtain pf pg where y: "y = (pf, pg)" by (cases y)
  from assms(1) snoc obtain f where cf: "current_fragment s = Some f"
    using ctx_shape_top[of s] by auto
  from exit_fragment_ctx[OF snoc[unfolded y] cf] assms(2) show ?thesis by simp
qed

lemma unchanged_refl: "unchanged_model s s"
  by (simp add: unchanged_model_def)

lemma failing_step_unchanged:
  assumes "world_inv s" "fst (step c s) = Inl e"
  shows "unchanged_model s (snd (step c s))"
proof (cases c)
  case (AddMessage xs)
  then show ?thesis using assms(2) failing_add_message[of xs s]
    by (cases "fst (add_message xs s)") (simp_all add: step_def)
next
  case (AddState info)
  then show ?thesis using assms(2) failing_add_state[of info s]
    by (cases "fst (add_state info s)") (simp_all add: step_def)
next
  case EnterFragment
  then show ?thesis using assms(2) failing_enter_fragment[of s]
    by (cases "fst (enter_fragment s)") (simp_all add: step_def)
next
  case (EnterGroup gd)
  then show ?thesis using assms(2) failing_enter_group[of gd s]
    by (cases "fst (enter_group gd s)") (simp_all add: step_def unchanged_refl)
next
  case ExitFragment
  have sh: "ctx_shape s" using assms(1) by (simp add: world_inv_def)
  show ?thesis using ExitFragment assms(2) failing_exit_fragment[OF sh]
    by (cases "fst (exit_fragment s)") (simp_all add: step_def unchanged_refl)
qed

lemma failing_step_fragments:
  assumes "world_inv s" "fst (step c s) = Inl e"
  shows "fragment_objs (snd (step c s)) = fragment_objs s \<or>
         (\<exists>fr. groups fr = [] \<and> fragment_objs (snd (step c s)) = fragment_objs s @ [fr])"
proof (cases c)
  case (AddMessage xs)
  then show ?thesis
    by (cases "current_fragment s"; cases "current_group s")
       (simp_all add: step_def add_message_def Let_def)
next
  case (AddState info)
  then show ?thesis
    by (cases "current_fragment s"; cases "current_group s")
       (simp_all add: step_def add_state_def Let_def)
next
  case EnterFragment
  then show ?thesis using assms(2) failing_enter_fragment[of s]
    by (cases "fst (enter_fragment s)") (simp_all add: step_def Fragment_init_def)
next
  case (EnterGroup gd)
  then show ?thesis using assms(2) failing_enter_group[of gd s]
    by (cases "fst (enter_group gd s)") (simp_all add: step_def)
next
  case ExitFragment
  have sh: "ctx_shape s" using assms(1) by (simp add: world_inv_def)
  show ?thesis using ExitFragment assms(2) failing_exit_fragment[OF sh]
    by (cases "fst (exit_fragment s)") (simp_all add: step_def)
qed

lemma refs_ok_sets:
  "refs_ok s \<Longrightarrow> nothing_new_attached s s"
  unfolding refs_ok_def nothing_new_attached_def Let_def
  by (metis in_set_conv_nth)

lemma failing_step_nothing_attached:
  assumes "world_inv s" "fst (step c s) = Inl e"
  shows "nothing_new_attached s (snd (step c s))"
proof -
  have r: "nothing_new_attached s s" using assms(1) by (simp add: world_inv_def refs_ok_sets)
  note u = failing_step_unchanged[OF assms]
  note f = failing_step_fragments[OF assms]
  show ?thesis using r u f
    by (auto simp: nothing_new_attached_def unchanged_model_def)
qed

lemma tracks_init: "tracks ScenarioBuilder_init []"
  by (simp add: tracks_def ScenarioBuilder_init_def)

lemma tracks_current:
  "tracks s opn \<Longrightarrow>
   current_fragment s = (case opn of [] \<Rightarrow> None | (f, g) # r \<Rightarrow> Some f) \<and>
   current_group s = (case opn of [] \<Rightarrow> None | (f, g) # r \<Rightarrow> g) \<and>
   length (state_stack s) = length opn"
proof (cases opn)
  case Nil
  assume "tracks s opn"
  then show ?thesis using Nil by (simp add: tracks_def)
next
  case (Cons c r)
  assume "tracks s opn"
  then have "state_stack s @ [(current_fragment s, current_group s)] =
             ((None, None) # rev (map (\<lambda>(f, g). (Some f, g)) r)) @ [(Some (fst c), snd c)]"
    using Cons by (simp add: tracks_def split_beta)
  then have "state_stack s = (None, None) # rev (map (\<lambda>(f, g). (Some f, g)) r) \<and>
             (current_fragment s, current_group s) = (Some (fst c), snd c)"
    by (simp only: append1_eq_conv)
  then show ?thesis using Cons by (cases c) simp
qed

lemma tracks_Nil:
  "tracks s [] = (state_stack s = [] \<and> current_fragment s = None \<and> current_group s = None)"
  by (auto simp: tracks_def)

lemma tracks_Cons:
  "tracks s ((f, g) # r) =
   (state_stack s = (None, None) # rev (map (\<lambda>(f, g). (Some f, g)) r) \<and>
    current_fragment s = Some f \<and> current_group s = g)"
  by (auto simp: tracks_def)

lemma add_message_ctx:
  "state_stack (snd (add_message xs s)) = state_stack s \<and>
   current_fragment (snd (add_message xs s)) = current_fragment s \<and>
   current_group (snd (add_message xs s)) = current_group s"
  by (cases "current_fragment s"; cases "current_group s")
     (simp_all add: add_message_def Let_def)

lemma add_state_ctx:
  "state_stack (snd (add_state info s)) = state_stack s \<and>
   current_fragment (snd (add_state info s)) = current_fragment s \<and>
   current_group (snd (add_state info s)) = current_group s"
  by (cases "current_fragment s"; cases "current_group s")
     (simp_all add: add_state_def Let_def)

lemma tracks_same_ctx:
  "tracks s opn \<Longrightarrow> state_stack s' = state_stack s \<Longrightarrow>
   current_fragment s' = current_fragment s \<Longrightarrow> current_group s' = current_group s \<Longrightarrow>
   tracks s' opn"
  by (simp add: tracks_def)

lemma tracks_enter_fragment:
  assumes "tracks s opn"
  shows "tracks (snd (enter_fragment s)) (track EnterFragment (map_sum id RFragment (fst (enter_fragment s))) opn)"
proof (cases "fst (enter_fragment s)")
  case (Inl e)
  from failing_enter_fragment[OF Inl] assms show ?thesis using Inl
    by (simp add: unchanged_model_def tracks_def)
next
  case (Inr f)
  from enter_fragment_ctx[OF Inr] assms show ?thesis using Inr
    by (simp add: tracks_def)
qed

lemma tracks_enter_group:
  assumes "tracks s opn"
  shows "tracks (snd (enter_group gd s)) (track (EnterGroup gd) (map_sum id RGroup (fst (enter_group gd s))) opn)"
proof (cases opn)
  case Nil
  then have "current_fragment s = None" using assms by (simp add: tracks_Nil)
  then have "enter_group gd s = (Inl NoActiveFragment, s)" by (simp add: enter_group_def)
  then show ?thesis using assms Nil by simp
next
  case (Cons c r)
  obtain f g where c: "c = (f, g)" by (cases c)
  from assms have t: "state_stack s = (None, None) # rev (map (\<lambda>(f, g). (Some f, g)) r)"
    and cf: "current_fragment s = Some f"
    unfolding Cons c tracks_Cons by simp_all
  from enter_group_ctx[OF cf, of gd] t show ?thesis unfolding Cons c
    by (simp add: tracks_Cons)
qed

lemma tracks_exit_fragment:
  assumes "tracks s opn"
  shows "tracks (snd (exit_fragment s)) (track ExitFragment (map_sum id (\<lambda>u. RNone) (fst (exit_fragment s))) opn)"
proof (cases opn)
  case Nil
  then have "state_stack s = []" using assms by (simp add: tracks_Nil)
  then have "exit_fragment s = (Inl EmptyContextStack, s)" by (rule exit_fragment_empty)
  then show ?thesis using assms Nil by simp
next
  case (Cons c r)
  obtain f g where c: "c = (f, g)" by (cases c)
  from assms have t: "state_stack s = (None, None) # rev (map (\<lambda>(f, g). (Some f, g)) r)"
    and cf: "current_fragment s = Some f"
    unfolding Cons c tracks_Cons by simp_all
  from t have ne: "state_stack s \<noteq> []" by simp
  then obtain ys y where st: "state_stack s = ys @ [y]"
    by (metis rev_exhaust)
  obtain pf pg where y: "y = (pf, pg)" by (cases y)
  note e = exit_fragment_ctx[OF st[unfolded y] cf]
  have "tracks (snd (exit_fragment s)) r"
    using e t st y by (simp add: tracks_def)
  then show ?thesis using e unfolding Cons c by simp
qed

lemma track_event: "track (AddMessage xs) r opn = opn" "track (AddState info) r opn = opn"
  by (cases r; cases opn; simp)+

lemma tracks_step:
  assumes "tracks s opn"
  shows "tracks (snd (step c s)) (track c (fst (step c s)) opn)"
proof (cases c)
  case (AddMessage xs)
  then show ?thesis using tracks_same_ctx[OF assms, of "snd (add_message xs s)"] add_message_ctx[of xs s]
    by (simp add: step_def track_event)
next
  case (AddState info)
  then show ?thesis using tracks_same_ctx[OF assms, of "snd (add_state info s)"] add_state_ctx[of info s]
    by (simp add: step_def track_event)
next
  case EnterFragment
  then show ?thesis using tracks_enter_fragment[OF assms] by (simp add: step_def)
next
  case (EnterGroup gd)
  then show ?thesis using tracks_enter_group[OF assms, of gd] by (simp add: step_def)
next
  case ExitFragment
  then show ?thesis using tracks_exit_fragment[OF assms] by (simp add: step_def)
qed

lemma tracks_run: "tracks s opn \<Longrightarrow> tracks (run cs s) (open_contexts cs s opn)"
  by (induction cs arbitrary: s opn) (simp_all add: run_Nil run_Cons tracks_step)

lemma exit_fragment_succeeds:
  assumes "ctx_shape s" "state_stack s \<noteq> []"
  shows "current_fragment s \<noteq> None \<and> fst (exit_fragment s) = Inr ()"
proof -
  from assms(2) obtain ys y where st: "state_stack s = ys @ [y]" by (metis rev_exhaust)
  obtain pf pg where y: "y = (pf, pg)" by (cases y)
  from assms obtain f where cf: "current_fragment s = Some f"
    using ctx_shape_top[of s] by auto
  from exit_fragment_ctx[OF st[unfolded y] cf] cf show ?thesis by simp
qed

lemma grown_refl: "grown_from s s"
  by (simp add: grown_from_def)

lemma grown_trans: "grown_from s s' \<Longrightarrow> grown_from s' s'' \<Longrightarrow> grown_from s s''"
  unfolding grown_from_def
  by (metis append.assoc le_trans less_le_trans)

lemma grown_add_message: "grown_from s (snd (add_message xs s))"
  by (cases "current_fragment s"; cases "current_group s")
     (simp_all add: add_message_def Let_def grown_from_def nth_update add_item_def)

lemma grown_add_state: "grown_from s (snd (add_state info s))"
  by (cases "current_fragment s"; cases "current_group s")
     (simp_all add: add_state_def Let_def grown_from_def nth_update add_item_def)

lemma grown_enter_fragment: "grown_from s (snd (enter_fragment s))"
  by (cases "current_fragment s"; cases "current_group s")
     (simp_all add: enter_fragment_def Let_def grown_from_def nth_update add_item_def)

lemma grown_enter_group: "grown_from s (snd (enter_group gd s))"
  by (cases "current_fragment s")
     (simp_all add: enter_group_def Let_def grown_from_def nth_append)

lemma grown_exit_fragment: "grown_from s (snd (exit_fragment s))"
  by (cases "current_fragment s")
     (simp_all add: exit_fragment_def Let_def grown_from_def split_beta)

lemma grown_step: "grown_from s (snd (step c s))"
  by (cases c)
     (simp_all add: step_def grown_add_message grown_add_state grown_enter_fragment
        grown_enter_group grown_exit_fragment)

lemma grown_run: "grown_from s (run cs s)"
proof (induction cs arbitrary: s)
  case Nil
  show ?case by (simp add: run_Nil grown_refl)
next
  case (Cons c cs)
  show ?case using grown_trans[OF grown_step[of s c] Cons[of "snd (step c s)"]]
    by (simp add: run_Cons)
qed

lemma closed_add_message: "closed_empty f s \<Longrightarrow> closed_empty f (snd (add_message xs s))"
  by (cases "current_fragment s"; cases "current_group s")
     (simp_all add: add_message_def Let_def closed_empty_def)

lemma closed_add_state: "closed_empty f s \<Longrightarrow> closed_empty f (snd (add_state info s))"
  by (cases "current_fragment s"; cases "current_group s")
     (simp_all add: add_state_def Let_def closed_empty_def)

lemma closed_enter_fragment: "closed_empty f s \<Longrightarrow> closed_empty f (snd (enter_fragment s))"
  by (cases "current_fragment s"; cases "current_group s")
     (auto simp: enter_fragment_def Let_def closed_empty_def nth_append)

lemma closed_enter_group: "closed_empty f s \<Longrightarrow> closed_empty f (snd (enter_group gd s))"
  by (cases "current_fragment s")
     (auto simp: enter_group_def Let_def closed_empty_def nth_update)

lemma closed_exit_fragment:
  assumes "closed_empty f s"
  shows "closed_empty f (snd (exit_fragment s))"
proof (cases "state_stack s" rule: rev_cases)
  case Nil
  then show ?thesis using assms by (simp add: exit_fragment_def)
next
  case (snoc ys y)
  then show ?thesis using assms
    by (cases y; cases "current_fragment s")
       (auto simp: exit_fragment_def Let_def closed_empty_def)
qed

lemma closed_step: "closed_empty f s \<Longrightarrow> closed_empty f (snd (step c s))"
  by (cases c)
     (simp_all add: step_def closed_add_message closed_add_state closed_enter_fragment
        closed_enter_group closed_exit_fragment)

lemma closed_run: "closed_empty f s \<Longrightarrow> closed_empty f (run cs s)"
  by (induction cs arbitrary: s) (simp_all add: run_Nil run_Cons closed_step)

lemma inv_ctx_bound:
  assumes "world_inv s"
  shows "current_fragment s \<noteq> Some (length (fragment_objs s)) \<and>
         (\<forall>c \<in> set (state_stack s). fst c \<noteq> Some (length (fragment_objs s)))"
proof -
  have "\<forall>c \<in> set (state_stack s @ [(current_fragment s, current_group s)]).
          ctx_ok (fragment_objs s) (length (group_objs s)) c"
    using assms by (simp add: world_inv_def ctxs_ok_def)
  then have "\<forall>c \<in> set (state_stack s @ [(current_fragment s, current_group s)]).
          fst c \<noteq> Some (length (fragment_objs s))"
    by (auto simp: ctx_ok_def)
  then show ?thesis by simp
qed

lemma exit_fragment_store:
  "base (snd (exit_fragment s)) = base s \<and>
   group_objs (snd (exit_fragment s)) = group_objs s \<and>
   fragment_objs (snd (exit_fragment s)) = fragment_objs s \<and>
   event_objs (snd (exit_fragment s)) = event_objs s"
  by (cases "current_fragment s") (simp_all add: exit_fragment_def Let_def split_beta)

lemma enter_fragment_store:
  "fst (enter_fragment s) = Inr f \<Longrightarrow>
   fragment_objs (snd (enter_fragment s)) = fragment_objs s @
     [Fragment_init (fragment_counter s) (''Fragment '' @ str_int (fragment_counter s))] \<and>
   (current_fragment s = None \<longrightarrow> base (snd (enter_fragment s)) = base s @ [FragmentRef f]) \<and>
   (\<forall>g. current_fragment s \<noteq> None \<and> current_group s = Some g \<longrightarrow>
      group_objs (snd (enter_fragment s)) =
        (group_objs s)[g := add_item (group_objs s ! g) (FragmentRef f)])"
  by (cases "current_fragment s"; cases "current_group s")
     (auto simp: enter_fragment_def Let_def)

lemma enter_then_exit:
  assumes i: "world_inv s" and ok: "fst (enter_fragment s) = Inr f"
  shows "f = length (fragment_objs s) \<and>
         fst (exit_fragment (snd (enter_fragment s))) = Inr () \<and>
         current_fragment (snd (exit_fragment (snd (enter_fragment s)))) = current_fragment s \<and>
         current_group (snd (exit_fragment (snd (enter_fragment s)))) = current_group s \<and>
         state_stack (snd (exit_fragment (snd (enter_fragment s)))) = state_stack s \<and>
         closed_empty f (snd (exit_fragment (snd (enter_fragment s)))) \<and>
         (current_fragment s = None \<longrightarrow>
            base (snd (exit_fragment (snd (enter_fragment s)))) = base s @ [FragmentRef f]) \<and>
         (\<forall>g. current_fragment s \<noteq> None \<and> current_group s = Some g \<longrightarrow>
            g < length (group_objs s) \<and>
            items (group_objs (snd (exit_fragment (snd (enter_fragment s)))) ! g) =
              items (group_objs s ! g) @ [FragmentRef f])"
proof -
  let ?s1 = "snd (enter_fragment s)"
  let ?s2 = "snd (exit_fragment ?s1)"
  note e1 = enter_fragment_ctx[OF ok]
  have st: "state_stack ?s1 = state_stack s @ [(current_fragment s, current_group s)]"
    and cf1: "current_fragment ?s1 = Some f" and fl: "f = length (fragment_objs s)"
    using e1 by simp_all
  note e2 = exit_fragment_ctx[OF st cf1]
  note x = exit_fragment_store[of ?s1]
  note es = enter_fragment_store[OF ok]
  have fr: "fragment_objs ?s2 = fragment_objs s @
       [Fragment_init (fragment_counter s) (''Fragment '' @ str_int (fragment_counter s))]"
    using es x by simp
  have e2a: "current_fragment ?s2 = current_fragment s" and e2b: "state_stack ?s2 = state_stack s"
    using e2 by simp_all
  have cl: "closed_empty f ?s2"
    unfolding closed_empty_def fr e2a e2b fl
    using inv_ctx_bound[OF i] by (simp add: Fragment_init_def)
  have b: "current_fragment s = None \<longrightarrow> base ?s2 = base s @ [FragmentRef f]"
    using es x by simp
  have g: "\<forall>g. current_fragment s \<noteq> None \<and> current_group s = Some g \<longrightarrow>
            g < length (group_objs s) \<and>
            items (group_objs ?s2 ! g) = items (group_objs s ! g) @ [FragmentRef f]"
  proof (intro allI impI)
    fix g assume a: "current_fragment s \<noteq> None \<and> current_group s = Some g"
    then have gl: "g < length (group_objs s)" using inv_current_group[OF i, of g] by simp
    have "group_objs ?s2 = (group_objs s)[g := add_item (group_objs s ! g) (FragmentRef f)]"
      using es x a by simp
    then show "g < length (group_objs s) \<and>
            items (group_objs ?s2 ! g) = items (group_objs s ! g) @ [FragmentRef f]"
      using gl by (simp add: add_item_def)
  qed
  show ?thesis using fl e2 cl b g by blast
qed

section \<open>The driver's scenario\<close>

text \<open>
  C1 (as amended). From a fresh builder the ten calls of the driver all return without an
  exception. Afterwards \<open>get_scenario\<close> holds four items: the first two messages, the
  fragment and the last message. The fragment has id 1 and two groups with ids 1 and 2: the
  first has guard "x > 5" and holds a message and then a state, the second has guard
  "x <= 5" and holds one message. The six events carry the ids 1 to 6 in call order.
\<close>

theorem main_scenario:
  "results main_calls ScenarioBuilder_init =
     [Inr (REvent 0), Inr (REvent 1), Inr (RFragment 0), Inr (RGroup 0), Inr (REvent 2),
      Inr (REvent 3), Inr (RGroup 1), Inr (REvent 4), Inr RNone, Inr (REvent 5)] \<and>
   get_scenario (run main_calls ScenarioBuilder_init) =
     [EventRef 0, EventRef 1, FragmentRef 0, EventRef 5] \<and>
   run main_calls ScenarioBuilder_init =
     \<lparr>base = [EventRef 0, EventRef 1, FragmentRef 0, EventRef 5],
      current_fragment = None, current_group = None, state_stack = [],
      event_counter = 7, group_counter = 3, fragment_counter = 2,
      event_objs =
        [EMessage \<lparr>m_id = 1, exchanged_items = [''data1'', ''data2''], m_type = ''message''\<rparr>,
         EMessage \<lparr>m_id = 2, exchanged_items = [''data3'', ''data4''], m_type = ''message''\<rparr>,
         EMessage \<lparr>m_id = 3, exchanged_items = [''data5''], m_type = ''message''\<rparr>,
         EState \<lparr>s_id = 4, state_info = ''Processing'', s_type = ''state''\<rparr>,
         EMessage \<lparr>m_id = 5, exchanged_items = [''data6'', ''data7''], m_type = ''message''\<rparr>,
         EMessage \<lparr>m_id = 6, exchanged_items = [''data8''], m_type = ''message''\<rparr>],
      group_objs =
        [\<lparr>g_id = 1, g_name = ''Group 1'', guard = Some ''x > 5'',
          items = [EventRef 2, EventRef 3], g_type = ''group''\<rparr>,
         \<lparr>g_id = 2, g_name = ''Group 2'', guard = Some ''x <= 5'',
          items = [EventRef 4], g_type = ''group''\<rparr>],
      fragment_objs =
        [\<lparr>f_id = 1, f_name = ''Fragment 1'', groups = [0, 1], f_type = ''fragment''\<rparr>]\<rparr>"
  by code_simp

text \<open>
  C1 as stated does not hold: the driver creates six events, not eight, so the event ids
  in creation order are 1 to 6 and no event carries id 7 or 8.
\<close>

theorem main_scenario_event_ids_counterexample:
  "map event_id (event_objs (run main_calls ScenarioBuilder_init)) \<noteq> [1, 2, 3, 4, 5, 6, 7, 8]"
  by code_simp

section \<open>Placement of new events and fragments\<close>

text \<open>
  C3. In every world reached from a fresh builder, \<open>add_message\<close> and \<open>add_state\<close> create
  the event with the next event id, and \<open>enter_fragment\<close> creates the fragment with the next
  fragment id. The call raises, with one of the two NoActiveGroup messages, exactly when a
  fragment is current and no group is; otherwise it returns the object it created, which is
  appended to \<open>base\<close> when no fragment is current and to the items of the current group
  when a fragment and a group are current.
\<close>

theorem placement_of_new_nodes:
  "(let s = run cs ScenarioBuilder_init; m = length (event_objs s);
        r = fst (add_message xs s); s' = snd (add_message xs s) in
     event_objs s' = event_objs s @
       [EMessage \<lparr>m_id = event_counter s, exchanged_items = xs, m_type = ''message''\<rparr>] \<and>
     ((\<exists>e. r = Inl e) \<longleftrightarrow> current_fragment s \<noteq> None \<and> current_group s = None) \<and>
     (\<forall>e. r = Inl e \<longrightarrow> is_NoActiveGroup e) \<and>
     (\<forall>v. r = Inr v \<longrightarrow> v = m) \<and>
     (current_fragment s = None \<longrightarrow>
        r = Inr m \<and> base s' = base s @ [EventRef m] \<and> group_objs s' = group_objs s) \<and>
     (\<forall>g. current_fragment s \<noteq> None \<and> current_group s = Some g \<longrightarrow>
        r = Inr m \<and> base s' = base s \<and> g < length (group_objs s) \<and>
        group_objs s' = (group_objs s)
          [g := (group_objs s ! g)\<lparr>items := items (group_objs s ! g) @ [EventRef m]\<rparr>])) \<and>
   (let s = run cs ScenarioBuilder_init; m = length (event_objs s);
        r = fst (add_state info s); s' = snd (add_state info s) in
     event_objs s' = event_objs s @
       [EState \<lparr>s_id = event_counter s, state_info = info, s_type = ''state''\<rparr>] \<and>
     ((\<exists>e. r = Inl e) \<longleftrightarrow> current_fragment s \<noteq> None \<and> current_group s = None) \<and>
     (\<forall>e. r = Inl e \<longrightarrow> is_NoActiveGroup e) \<and>
     (\<forall>v. r = Inr v \<longrightarrow> v = m) \<and>
     (current_fragment s = None \<longrightarrow>
        r = Inr m \<and> base s' = base s @ [EventRef m] \<and> group_objs s' = group_objs s) \<and>
     (\<forall>g. current_fragment s \<noteq> None \<and> current_group s = Some g \<longrightarrow>
        r = Inr m \<and> base s' = base s \<and> g < length (group_objs s) \<and>
        group_objs s' = (group_objs s)
          [g := (group_objs s ! g)\<lparr>items := items (group_objs s ! g) @ [EventRef m]\<rparr>])) \<and>
   (let s = run cs ScenarioBuilder_init; m = length (fragment_objs s);
        r = fst (enter_fragment s); s' = snd (enter_fragment s) in
     fragment_objs s' = fragment_objs s @
       [\<lparr>f_id = fragment_counter s, f_name = ''Fragment '' @ str_int (fragment_counter s),
         groups = [], f_type = ''fragment''\<rparr>] \<and>
     ((\<exists>e. r = Inl e) \<longleftrightarrow> current_fragment s \<noteq> None \<and> current_group s = None) \<and>
     (\<forall>e. r = Inl e \<longrightarrow> is_NoActiveGroup e) \<and>
     (\<forall>v. r = Inr v \<longrightarrow> v = m) \<and>
     (current_fragment s = None \<longrightarrow>
        r = Inr m \<and> base s' = base s @ [FragmentRef m] \<and> group_objs s' = group_objs s) \<and>
     (\<forall>g. current_fragment s \<noteq> None \<and> current_group s = Some g \<longrightarrow>
        r = Inr m \<and> base s' = base s \<and> g < length (group_objs s) \<and>
        group_objs s' = (group_objs s)
          [g := (group_objs s ! g)\<lparr>items := items (group_objs s ! g) @ [FragmentRef m]\<rparr>]))"
proof (intro conjI)
  show "let s = run cs ScenarioBuilder_init; m = length (event_objs s);
        r = fst (add_message xs s); s' = snd (add_message xs s) in
     event_objs s' = event_objs s @
       [EMessage \<lparr>m_id = event_counter s, exchanged_items = xs, m_type = ''message''\<rparr>] \<and>
     ((\<exists>e. r = Inl e) \<longleftrightarrow> current_fragment s \<noteq> None \<and> current_group s = None) \<and>
     (\<forall>e. r = Inl e \<longrightarrow> is_NoActiveGroup e) \<and>
     (\<forall>v. r = Inr v \<longrightarrow> v = m) \<and>
     (current_fragment s = None \<longrightarrow>
        r = Inr m \<and> base s' = base s @ [EventRef m] \<and> group_objs s' = group_objs s) \<and>
     (\<forall>g. current_fragment s \<noteq> None \<and> current_group s = Some g \<longrightarrow>
        r = Inr m \<and> base s' = base s \<and> g < length (group_objs s) \<and>
        group_objs s' = (group_objs s)
          [g := (group_objs s ! g)\<lparr>items := items (group_objs s ! g) @ [EventRef m]\<rparr>])"
    unfolding Let_def by (rule add_message_effect[OF inv_reachable, unfolded Let_def])
  show "let s = run cs ScenarioBuilder_init; m = length (event_objs s);
        r = fst (add_state info s); s' = snd (add_state info s) in
     event_objs s' = event_objs s @
       [EState \<lparr>s_id = event_counter s, state_info = info, s_type = ''state''\<rparr>] \<and>
     ((\<exists>e. r = Inl e) \<longleftrightarrow> current_fragment s \<noteq> None \<and> current_group s = None) \<and>
     (\<forall>e. r = Inl e \<longrightarrow> is_NoActiveGroup e) \<and>
     (\<forall>v. r = Inr v \<longrightarrow> v = m) \<and>
     (current_fragment s = None \<longrightarrow>
        r = Inr m \<and> base s' = base s @ [EventRef m] \<and> group_objs s' = group_objs s) \<and>
     (\<forall>g. current_fragment s \<noteq> None \<and> current_group s = Some g \<longrightarrow>
        r = Inr m \<and> base s' = base s \<and> g < length (group_objs s) \<and>
        group_objs s' = (group_objs s)
          [g := (group_objs s ! g)\<lparr>items := items (group_objs s ! g) @ [EventRef m]\<rparr>])"
    unfolding Let_def by (rule add_state_effect[OF inv_reachable, unfolded Let_def])
  show "let s = run cs ScenarioBuilder_init; m = length (fragment_objs s);
        r = fst (enter_fragment s); s' = snd (enter_fragment s) in
     fragment_objs s' = fragment_objs s @
       [\<lparr>f_id = fragment_counter s, f_name = ''Fragment '' @ str_int (fragment_counter s),
         groups = [], f_type = ''fragment''\<rparr>] \<and>
     ((\<exists>e. r = Inl e) \<longleftrightarrow> current_fragment s \<noteq> None \<and> current_group s = None) \<and>
     (\<forall>e. r = Inl e \<longrightarrow> is_NoActiveGroup e) \<and>
     (\<forall>v. r = Inr v \<longrightarrow> v = m) \<and>
     (current_fragment s = None \<longrightarrow>
        r = Inr m \<and> base s' = base s @ [FragmentRef m] \<and> group_objs s' = group_objs s) \<and>
     (\<forall>g. current_fragment s \<noteq> None \<and> current_group s = Some g \<longrightarrow>
        r = Inr m \<and> base s' = base s \<and> g < length (group_objs s) \<and>
        group_objs s' = (group_objs s)
          [g := (group_objs s ! g)\<lparr>items := items (group_objs s ! g) @ [FragmentRef m]\<rparr>])"
    unfolding Let_def by (rule enter_fragment_effect[OF inv_reachable, unfolded Let_def])
qed

theorem placement_of_new_nodes_witness:
  "current_fragment (run [EnterFragment, EnterGroup None] ScenarioBuilder_init) \<noteq> None \<and>
   current_group (run [EnterFragment, EnterGroup None] ScenarioBuilder_init) = Some 0 \<and>
   fst (add_message [''data''] (run [EnterFragment, EnterGroup None] ScenarioBuilder_init)) =
     Inr (length (event_objs (run [EnterFragment, EnterGroup None] ScenarioBuilder_init))) \<and>
   base (snd (add_message [''data''] (run [EnterFragment, EnterGroup None] ScenarioBuilder_init))) =
     base (run [EnterFragment, EnterGroup None] ScenarioBuilder_init)"
proof -
  have h: "current_fragment (run [EnterFragment, EnterGroup None] ScenarioBuilder_init) \<noteq> None \<and>
           current_group (run [EnterFragment, EnterGroup None] ScenarioBuilder_init) = Some 0"
    by code_simp
  show ?thesis
    using h placement_of_new_nodes[of "[EnterFragment, EnterGroup None]" "[''data'']" "''x''",
        unfolded Let_def]
    by blast
qed

section \<open>Entering a group\<close>

text \<open>
  C7. In every world reached from a fresh builder, \<open>enter_group\<close> raises, with the
  NoActiveFragment message and leaving the world as it was, exactly when no fragment is
  current. Otherwise it creates a group with the next group id and exactly the given guard,
  appends it to the groups of the current fragment, makes it the current group and returns
  it. The guard text of the branch header is empty for a group created without a guard and
  holds the exact label for a group created with one.
\<close>

theorem enter_group_behaviour:
  "let s = run cs ScenarioBuilder_init; g = length (group_objs s);
       r = fst (enter_group gd s); s' = snd (enter_group gd s) in
     ((\<exists>e. r = Inl e) \<longleftrightarrow> current_fragment s = None) \<and>
     (current_fragment s = None \<longrightarrow> r = Inl NoActiveFragment \<and> s' = s) \<and>
     (\<forall>f. current_fragment s = Some f \<longrightarrow>
        r = Inr g \<and> f < length (fragment_objs s) \<and>
        group_objs s' = group_objs s @
          [\<lparr>g_id = group_counter s, g_name = ''Group '' @ str_int (group_counter s),
            guard = gd, items = [], g_type = ''group''\<rparr>] \<and>
        groups (fragment_objs s' ! f) = groups (fragment_objs s ! f) @ [g] \<and>
        current_fragment s' = Some f \<and> current_group s' = Some g \<and>
        guard (group_objs s' ! g) = gd \<and>
        guard_str (group_objs s' ! g) =
          (case gd of None \<Rightarrow> [] | Some label \<Rightarrow> '' [Guard: '' @ label @ '']'') \<and>
        group_header spacer (group_objs s' ! g) =
          spacer @ ''  * Group '' @ str_int (group_counter s) @
          (case gd of None \<Rightarrow> [] | Some label \<Rightarrow> '' [Guard: '' @ label @ '']'') @
          '' (Group):'')"
proof -
  let ?s = "run cs ScenarioBuilder_init"
  have i: "world_inv ?s" by (rule inv_reachable)
  show ?thesis
    using inv_current_fragment[OF i]
    by (auto simp: Let_def enter_group_def Group_init_def add_group_def guard_str_def
          group_header_def nth_append split: option.splits)
qed

theorem enter_group_behaviour_witness:
  "current_fragment (run [EnterFragment] ScenarioBuilder_init) = Some 0 \<and>
   fst (enter_group (Some ''x > 5'') (run [EnterFragment] ScenarioBuilder_init)) =
     Inr (length (group_objs (run [EnterFragment] ScenarioBuilder_init))) \<and>
   guard (group_objs (snd (enter_group (Some ''x > 5'') (run [EnterFragment] ScenarioBuilder_init))) !
          length (group_objs (run [EnterFragment] ScenarioBuilder_init))) = Some ''x > 5'' \<and>
   guard_str (group_objs (snd (enter_group (Some ''x > 5'') (run [EnterFragment] ScenarioBuilder_init))) !
          length (group_objs (run [EnterFragment] ScenarioBuilder_init))) = '' [Guard: x > 5]''"
proof -
  have h: "current_fragment (run [EnterFragment] ScenarioBuilder_init) = Some 0"
    by code_simp
  have c: "(case Some ''x > 5'' of None \<Rightarrow> [] | Some label \<Rightarrow> '' [Guard: '' @ label @ '']'') =
           '' [Guard: x > 5]''"
    by simp
  show ?thesis
    using h enter_group_behaviour[of "[EnterFragment]" "Some ''x > 5''" "[]", unfolded Let_def c]
    by blast
qed

section \<open>Context restoration\<close>

text \<open>
  C5. From any world in which \<open>enter_fragment\<close> succeeds (every reachable world among
  them), the calls \<open>enter_fragment\<close>, \<open>enter_group\<close> with any guard and \<open>exit_fragment\<close>
  all succeed, and afterwards the current fragment, the current group and the context stack
  are what they were before the \<open>enter_fragment\<close> call.
\<close>

theorem context_restoration:
  "fst (enter_fragment s) = Inr f \<Longrightarrow>
   (let s1 = snd (enter_fragment s);
        s2 = snd (enter_group gd s1);
        s3 = snd (exit_fragment s2) in
      fst (enter_group gd s1) = Inr (length (group_objs s1)) \<and>
      fst (exit_fragment s2) = Inr () \<and>
      current_fragment s3 = current_fragment s \<and>
      current_group s3 = current_group s \<and>
      state_stack s3 = state_stack s)"
proof -
  assume a: "fst (enter_fragment s) = Inr f"
  let ?s1 = "snd (enter_fragment s)"
  let ?s2 = "snd (enter_group gd ?s1)"
  note e1 = enter_fragment_ctx[OF a]
  have c1: "current_fragment ?s1 = Some f" using e1 by simp
  note e2 = enter_group_ctx[OF c1, of gd]
  have st: "state_stack ?s2 = state_stack s @ [(current_fragment s, current_group s)]"
    using e1 e2 by simp
  have c2: "current_fragment ?s2 = Some f" using e2 by simp
  note e3 = exit_fragment_ctx[OF st c2]
  show ?thesis unfolding Let_def using e2 e3 by simp
qed

theorem context_restoration_witness:
  "fst (enter_fragment ScenarioBuilder_init) = Inr 0 \<and>
   fst (exit_fragment (snd (enter_group None (snd (enter_fragment ScenarioBuilder_init))))) = Inr () \<and>
   current_fragment (snd (exit_fragment (snd (enter_group None (snd (enter_fragment ScenarioBuilder_init)))))) =
     current_fragment ScenarioBuilder_init \<and>
   current_group (snd (exit_fragment (snd (enter_group None (snd (enter_fragment ScenarioBuilder_init)))))) =
     current_group ScenarioBuilder_init"
proof -
  have h: "fst (enter_fragment ScenarioBuilder_init) = Inr 0"
    by code_simp
  show ?thesis
    using h context_restoration[OF h, of None, unfolded Let_def]
    by blast
qed

section \<open>Stack discipline\<close>

text \<open>
  C4. From a fresh builder, N nested \<open>enter_fragment\<close> calls followed by N \<open>exit_fragment\<close>
  calls leave the context at top level (no current fragment, no current group, empty
  context stack), and one more \<open>exit_fragment\<close> raises with the EmptyContextStack message.
  The first part reads the N calls as properly nested, each further fragment entered
  inside a group of the one before (any guards); then every call succeeds. The second
  part reads them as N calls in a row with no group in between: the calls after the first
  raise NoActiveGroup and the exits after the first raise EmptyContextStack, and the
  context ends at top level all the same.
\<close>

theorem stack_discipline:
  "(let cs = nested_enters gds @ replicate (Suc (length gds)) ExitFragment;
        s = run cs ScenarioBuilder_init in
      length (filter (\<lambda>c. c = EnterFragment) (nested_enters gds)) = Suc (length gds) \<and>
      (\<forall>r \<in> set (results cs ScenarioBuilder_init). \<exists>v. r = Inr v) \<and>
      current_fragment s = None \<and> current_group s = None \<and> state_stack s = [] \<and>
      fst (exit_fragment s) = Inl EmptyContextStack) \<and>
   (let cs = replicate (Suc n) EnterFragment @ replicate (Suc n) ExitFragment;
        s = run cs ScenarioBuilder_init in
      results cs ScenarioBuilder_init =
        Inr (RFragment 0) # replicate n (Inl NoActiveGroup_fragment) @
        Inr RNone # replicate n (Inl EmptyContextStack) \<and>
      current_fragment s = None \<and> current_group s = None \<and> state_stack s = [] \<and>
      fst (exit_fragment s) = Inl EmptyContextStack)"
  using nested_then_exits[of gds] repeated_then_exits[of n] count_nested_enters[of gds]
  unfolding Let_def by blast

theorem stack_discipline_witness:
  "set (results (nested_enters [Some ''a''] @ replicate 2 ExitFragment) ScenarioBuilder_init) =
     {Inr (RFragment 0), Inr (RGroup 0), Inr (RFragment 1), Inr RNone} \<and>
   current_fragment (run (nested_enters [Some ''a''] @ replicate 2 ExitFragment) ScenarioBuilder_init) = None \<and>
   fst (exit_fragment (run (nested_enters [Some ''a''] @ replicate 2 ExitFragment) ScenarioBuilder_init)) =
     Inl EmptyContextStack"
proof -
  have h: "set (results (nested_enters [Some ''a''] @ replicate 2 ExitFragment) ScenarioBuilder_init) =
     {Inr (RFragment 0), Inr (RGroup 0), Inr (RFragment 1), Inr RNone}"
    by code_simp
  have n: "Suc (length [Some ''a'']) = 2" by simp
  show ?thesis
    using h stack_discipline[of "[Some ''a'']" 0, unfolded Let_def n]
    by blast
qed

section \<open>Id counters\<close>

text \<open>
  C6. After any sequence of calls on a fresh builder, the ids of the objects of each kind
  (events, groups, fragments), taken in creation order, are 1, 2, 3 and so on: they start
  at 1, increase strictly and never repeat. Each counter stands one above the number of
  objects of its kind, and that number depends only on the calls of that kind: the
  \<open>add_message\<close> and \<open>add_state\<close> calls for events, the \<open>enter_fragment\<close> calls for
  fragments, the successful \<open>enter_group\<close> calls for groups. Whatever calls follow, the
  objects that exist keep their ids. The objects counted are all those created, also the
  ones a failing call created and did not attach.
\<close>

theorem id_counters:
  "let s = run cs ScenarioBuilder_init; t = run ds s in
     map event_id (event_objs s) = [1..int (length (event_objs s))] \<and>
     map g_id (group_objs s) = [1..int (length (group_objs s))] \<and>
     map f_id (fragment_objs s) = [1..int (length (fragment_objs s))] \<and>
     sorted_wrt (<) (map event_id (event_objs s)) \<and>
     sorted_wrt (<) (map g_id (group_objs s)) \<and>
     sorted_wrt (<) (map f_id (fragment_objs s)) \<and>
     event_counter s = int (length (event_objs s)) + 1 \<and>
     group_counter s = int (length (group_objs s)) + 1 \<and>
     fragment_counter s = int (length (fragment_objs s)) + 1 \<and>
     length (event_objs s) = length (filter creates_event cs) \<and>
     length (group_objs s) = length (filter is_group_result (results cs ScenarioBuilder_init)) \<and>
     length (fragment_objs s) = length (filter (\<lambda>c. c = EnterFragment) cs) \<and>
     take (length (event_objs s)) (map event_id (event_objs t)) = map event_id (event_objs s) \<and>
     take (length (group_objs s)) (map g_id (group_objs t)) = map g_id (group_objs s) \<and>
     take (length (fragment_objs s)) (map f_id (fragment_objs t)) = map f_id (fragment_objs s)"
proof -
  let ?s = "run cs ScenarioBuilder_init"
  let ?t = "run ds ?s"
  have a: "ids_ok ?s" using inv_reachable[of cs] by (simp add: world_inv_def)
  have b: "ids_ok ?t" using inv_reachable[of "cs @ ds"] by (simp add: world_inv_def run_append)
  have l: "length (event_objs ?s) \<le> length (event_objs ?t)"
          "length (group_objs ?s) \<le> length (group_objs ?t)"
          "length (fragment_objs ?s) \<le> length (fragment_objs ?t)"
    by (simp_all add: run_event_count run_group_count run_fragment_count)
  note k = ids_ok_later[OF a b l]
  have c: "length (event_objs ?s) = length (filter creates_event cs)"
          "length (group_objs ?s) = length (filter is_group_result (results cs ScenarioBuilder_init))"
          "length (fragment_objs ?s) = length (filter (\<lambda>c. c = EnterFragment) cs)"
    by (simp_all add: run_event_count run_group_count run_fragment_count ScenarioBuilder_init_def)
  have srt: "sorted_wrt (<) (map event_id (event_objs ?s))"
            "sorted_wrt (<) (map g_id (group_objs ?s))"
            "sorted_wrt (<) (map f_id (fragment_objs ?s))"
    using a by (simp_all add: ids_ok_def)
  show ?thesis unfolding Let_def using a k c srt by (simp add: ids_ok_def)
qed

theorem id_counters_witness:
  "map event_id (event_objs (run main_calls ScenarioBuilder_init)) =
     [1..int (length (event_objs (run main_calls ScenarioBuilder_init)))] \<and>
   length (event_objs (run main_calls ScenarioBuilder_init)) = 6 \<and>
   event_counter (run main_calls ScenarioBuilder_init) = 7 \<and>
   group_counter (run main_calls ScenarioBuilder_init) = 3 \<and>
   fragment_counter (run main_calls ScenarioBuilder_init) = 2"
proof -
  have h: "length (event_objs (run main_calls ScenarioBuilder_init)) = 6 \<and>
           length (group_objs (run main_calls ScenarioBuilder_init)) = 2 \<and>
           length (fragment_objs (run main_calls ScenarioBuilder_init)) = 1"
    by code_simp
  show ?thesis
    using h id_counters[of main_calls "[]", unfolded Let_def]
    by simp
qed

section \<open>Failing calls\<close>

text \<open>
  C2. In every world reached from a fresh builder, a call of any of the five operations
  that raises leaves \<open>base\<close>, the current fragment, the current group and the context
  stack as they were, every group as it was, and every fragment and event that existed
  before the call as it was. The object the call had constructed is attached nowhere:
  every reference held by \<open>base\<close>, by the items of a group or by the groups of a fragment
  still points to an object that existed before the call. (The id counters are not part of
  this: see C10.)
\<close>

theorem failed_call_leaves_model:
  "let s = run cs ScenarioBuilder_init; s' = snd (step c s) in
     (\<exists>e. fst (step c s) = Inl e) \<longrightarrow>
       base s' = base s \<and>
       current_fragment s' = current_fragment s \<and>
       current_group s' = current_group s \<and>
       state_stack s' = state_stack s \<and>
       group_objs s' = group_objs s \<and>
       take (length (fragment_objs s)) (fragment_objs s') = fragment_objs s \<and>
       take (length (event_objs s)) (event_objs s') = event_objs s \<and>
       nothing_new_attached s s'"
proof -
  let ?s = "run cs ScenarioBuilder_init"
  have i: "world_inv ?s" by (rule inv_reachable)
  show ?thesis
    using failing_step_unchanged[OF i, of c] failing_step_nothing_attached[OF i, of c]
    unfolding Let_def unchanged_model_def by blast
qed

theorem failed_call_leaves_model_witness:
  "fst (step (AddMessage [''data'']) (run [EnterFragment] ScenarioBuilder_init)) =
     Inl NoActiveGroup_event \<and>
   base (snd (step (AddMessage [''data'']) (run [EnterFragment] ScenarioBuilder_init))) =
     base (run [EnterFragment] ScenarioBuilder_init) \<and>
   state_stack (snd (step (AddMessage [''data'']) (run [EnterFragment] ScenarioBuilder_init))) =
     state_stack (run [EnterFragment] ScenarioBuilder_init) \<and>
   nothing_new_attached (run [EnterFragment] ScenarioBuilder_init)
     (snd (step (AddMessage [''data'']) (run [EnterFragment] ScenarioBuilder_init)))"
proof -
  have h: "fst (step (AddMessage [''data'']) (run [EnterFragment] ScenarioBuilder_init)) =
             Inl NoActiveGroup_event"
    by code_simp
  show ?thesis
    using h failed_call_leaves_model[of "[EnterFragment]" "AddMessage [''data'']",
        unfolded Let_def]
    by blast
qed

section \<open>The active fragment and group\<close>

text \<open>
  C8. The builder holds at most one current fragment and one current group (each is a
  single optional reference). After any sequence of calls on a fresh builder they are the
  most recently entered fragment not yet exited and the group entered last in it, as
  \<open>open_contexts\<close> reads them off the history of successful calls; the context stack is as
  deep as the number of open fragments. Whenever the context stack is not empty a fragment
  is current, so \<open>exit_fragment\<close> succeeds and never reads the name of an absent fragment.
  Whenever a group is current, a fragment is current and the group is one of its groups.
\<close>

theorem active_context:
  "let s = run cs ScenarioBuilder_init;
       opn = open_contexts cs ScenarioBuilder_init [] in
     current_fragment s = (case opn of [] \<Rightarrow> None | (f, g) # r \<Rightarrow> Some f) \<and>
     current_group s = (case opn of [] \<Rightarrow> None | (f, g) # r \<Rightarrow> g) \<and>
     length (state_stack s) = length opn \<and>
     (state_stack s \<noteq> [] \<longrightarrow>
        current_fragment s \<noteq> None \<and> fst (exit_fragment s) = Inr ()) \<and>
     (\<forall>g. current_group s = Some g \<longrightarrow>
        g < length (group_objs s) \<and>
        (\<exists>f. current_fragment s = Some f \<and> f < length (fragment_objs s) \<and>
             g \<in> set (groups (fragment_objs s ! f))))"
proof -
  let ?s = "run cs ScenarioBuilder_init"
  have i: "world_inv ?s" by (rule inv_reachable)
  have sh: "ctx_shape ?s" using i by (simp add: world_inv_def)
  note t = tracks_current[OF tracks_run[OF tracks_init, of cs]]
  show ?thesis
    unfolding Let_def
    using t exit_fragment_succeeds[OF sh] inv_current_group[OF i]
    by blast
qed

theorem active_context_witness:
  "open_contexts [EnterFragment, EnterGroup None, EnterFragment, EnterGroup (Some ''g''), ExitFragment]
     ScenarioBuilder_init [] = [(0, Some 0)] \<and>
   current_group (run [EnterFragment, EnterGroup None, EnterFragment, EnterGroup (Some ''g''), ExitFragment]
     ScenarioBuilder_init) = Some 0 \<and>
   state_stack (run [EnterFragment, EnterGroup None, EnterFragment, EnterGroup (Some ''g''), ExitFragment]
     ScenarioBuilder_init) \<noteq> [] \<and>
   current_fragment (run [EnterFragment, EnterGroup None, EnterFragment, EnterGroup (Some ''g''), ExitFragment]
     ScenarioBuilder_init) \<noteq> None \<and>
   fst (exit_fragment (run [EnterFragment, EnterGroup None, EnterFragment, EnterGroup (Some ''g''), ExitFragment]
     ScenarioBuilder_init)) = Inr ()"
proof -
  have h: "open_contexts [EnterFragment, EnterGroup None, EnterFragment, EnterGroup (Some ''g''), ExitFragment]
             ScenarioBuilder_init [] = [(0, Some 0)] \<and>
           current_group (run [EnterFragment, EnterGroup None, EnterFragment, EnterGroup (Some ''g''), ExitFragment]
             ScenarioBuilder_init) = Some 0 \<and>
           state_stack (run [EnterFragment, EnterGroup None, EnterFragment, EnterGroup (Some ''g''), ExitFragment]
             ScenarioBuilder_init) \<noteq> []"
    by code_simp
  show ?thesis
    using h active_context[of "[EnterFragment, EnterGroup None, EnterFragment, EnterGroup (Some ''g''), ExitFragment]",
        unfolded Let_def]
    by blast
qed

section \<open>A fragment without groups\<close>

text \<open>
  C9. In every world reached from a fresh builder in which \<open>enter_fragment\<close> succeeds,
  \<open>exit_fragment\<close> called right after it, with no \<open>enter_group\<close> in between, succeeds too.
  The current fragment, the current group and the context stack are then what they were
  before. The new fragment has been appended to its parent container (to \<open>base\<close> at top
  level, to the items of the group that was current otherwise) and has no group. Whatever
  calls follow, it stays in that container at the same place and its list of groups
  stays empty.
\<close>

theorem empty_fragment_allowed:
  "let s = run cs ScenarioBuilder_init;
       s1 = snd (enter_fragment s);
       s2 = snd (exit_fragment s1);
       t = run ds s2 in
     fst (enter_fragment s) = Inr f \<longrightarrow>
       fst (exit_fragment s1) = Inr () \<and>
       current_fragment s2 = current_fragment s \<and>
       current_group s2 = current_group s \<and>
       state_stack s2 = state_stack s \<and>
       f < length (fragment_objs s2) \<and> groups (fragment_objs s2 ! f) = [] \<and>
       (current_fragment s = None \<longrightarrow> base s2 = base s @ [FragmentRef f]) \<and>
       (\<forall>g. current_fragment s \<noteq> None \<and> current_group s = Some g \<longrightarrow>
          g < length (group_objs s) \<and>
          items (group_objs s2 ! g) = items (group_objs s ! g) @ [FragmentRef f]) \<and>
       f < length (fragment_objs t) \<and> groups (fragment_objs t ! f) = [] \<and>
       (current_fragment s = None \<longrightarrow> (\<exists>ys. base t = base s @ FragmentRef f # ys)) \<and>
       (\<forall>g. current_fragment s \<noteq> None \<and> current_group s = Some g \<longrightarrow>
          (\<exists>ys. items (group_objs t ! g) = items (group_objs s ! g) @ FragmentRef f # ys))"
proof -
  let ?s = "run cs ScenarioBuilder_init"
  let ?s1 = "snd (enter_fragment ?s)"
  let ?s2 = "snd (exit_fragment ?s1)"
  let ?t = "run ds ?s2"
  have i: "world_inv ?s" by (rule inv_reachable)
  {
    assume ok: "fst (enter_fragment ?s) = Inr f"
    note e = enter_then_exit[OF i ok]
    have c2: "closed_empty f ?s2" using e by blast
    have ct: "closed_empty f ?t" by (rule closed_run[OF c2])
    have gr0: "grown_from ?s ?s2"
      by (rule grown_trans[OF grown_enter_fragment grown_exit_fragment])
    note gr = grown_run[of ?s2 ds]
    have bt: "current_fragment ?s = None \<longrightarrow> (\<exists>ys. base ?t = base ?s @ FragmentRef f # ys)"
    proof
      assume "current_fragment ?s = None"
      then have "base ?s2 = base ?s @ [FragmentRef f]" using e by blast
      moreover obtain ys where "base ?t = base ?s2 @ ys" using gr by (auto simp: grown_from_def)
      ultimately show "\<exists>ys. base ?t = base ?s @ FragmentRef f # ys" by simp
    qed
    have gt: "\<forall>g. current_fragment ?s \<noteq> None \<and> current_group ?s = Some g \<longrightarrow>
          (\<exists>ys. items (group_objs ?t ! g) = items (group_objs ?s ! g) @ FragmentRef f # ys)"
    proof (intro allI impI)
      fix g assume a: "current_fragment ?s \<noteq> None \<and> current_group ?s = Some g"
      then have g1: "g < length (group_objs ?s)"
        and g2: "items (group_objs ?s2 ! g) = items (group_objs ?s ! g) @ [FragmentRef f]"
        using e by blast+
      have "g < length (group_objs ?s2)" using g1 gr0 by (simp add: grown_from_def)
      then obtain ys where "items (group_objs ?t ! g) = items (group_objs ?s2 ! g) @ ys"
        using gr by (auto simp: grown_from_def)
      then show "\<exists>ys. items (group_objs ?t ! g) = items (group_objs ?s ! g) @ FragmentRef f # ys"
        using g2 by simp
    qed
    have "fst (exit_fragment ?s1) = Inr () \<and>
       current_fragment ?s2 = current_fragment ?s \<and>
       current_group ?s2 = current_group ?s \<and>
       state_stack ?s2 = state_stack ?s \<and>
       f < length (fragment_objs ?s2) \<and> groups (fragment_objs ?s2 ! f) = [] \<and>
       (current_fragment ?s = None \<longrightarrow> base ?s2 = base ?s @ [FragmentRef f]) \<and>
       (\<forall>g. current_fragment ?s \<noteq> None \<and> current_group ?s = Some g \<longrightarrow>
          g < length (group_objs ?s) \<and>
          items (group_objs ?s2 ! g) = items (group_objs ?s ! g) @ [FragmentRef f]) \<and>
       f < length (fragment_objs ?t) \<and> groups (fragment_objs ?t ! f) = [] \<and>
       (current_fragment ?s = None \<longrightarrow> (\<exists>ys. base ?t = base ?s @ FragmentRef f # ys)) \<and>
       (\<forall>g. current_fragment ?s \<noteq> None \<and> current_group ?s = Some g \<longrightarrow>
          (\<exists>ys. items (group_objs ?t ! g) = items (group_objs ?s ! g) @ FragmentRef f # ys))"
      using e c2 ct bt gt unfolding closed_empty_def by blast
  }
  then show ?thesis unfolding Let_def by blast
qed

theorem empty_fragment_allowed_witness:
  "fst (enter_fragment (run [] ScenarioBuilder_init)) = Inr 0 \<and>
   fst (exit_fragment (snd (enter_fragment (run [] ScenarioBuilder_init)))) = Inr () \<and>
   groups (fragment_objs (snd (exit_fragment (snd (enter_fragment (run [] ScenarioBuilder_init))))) ! 0) = [] \<and>
   groups (fragment_objs (run [AddMessage [''later'']]
      (snd (exit_fragment (snd (enter_fragment (run [] ScenarioBuilder_init)))))) ! 0) = []"
proof -
  have h: "fst (enter_fragment (run [] ScenarioBuilder_init)) = Inr 0"
    by code_simp
  show ?thesis
    using h empty_fragment_allowed[of "[]" "[AddMessage [''later'']]" 0, unfolded Let_def]
    by blast
qed

end
